theory Spec2Isabelle
  imports Main "HOL-Library.Word"
begin

section \<open>Python values used by myvmk-cal.py\<close>

text \<open>
  A Python \<open>str\<close> is modelled as a \<open>string\<close>: one \<open>char\<close> per code point, for the code
  points below 256 (the range of HOL's \<open>char\<close>). Exceptions are values: a function that can
  raise returns \<open>py_error + 'a\<close>, with \<open>Inl\<close> for the exception.
\<close>

datatype py_error = ValueError | OverflowError

text \<open>A character class of a regular expression, given by its members.\<close>

definition one_of :: "string \<Rightarrow> char \<Rightarrow> bool" where
  "one_of cs c = (c \<in> set cs)"

text \<open>
  The characters that \<open>str.isspace\<close>, \<open>str.strip\<close>, \<open>str.split\<close> and the regular
  expression class \<open>\s\<close> treat as white space, among the code points below 256:
  U+0009 to U+000D, U+001C to U+001F, U+0020, U+0085 and U+00A0.
\<close>

definition is_space :: "char \<Rightarrow> bool" where
  "is_space c = one_of [CHR 0x09, CHR 0x0A, CHR 0x0B, CHR 0x0C, CHR 0x0D,
                        CHR 0x1C, CHR 0x1D, CHR 0x1E, CHR 0x1F, CHR 0x20,
                        CHR 0x85, CHR 0xA0] c"

text \<open>The class \<open>[0-9]\<close>; the class \<open>\d\<close> is the same set below code point 256.\<close>

definition is_digit :: "char \<Rightarrow> bool" where
  "is_digit c = one_of ''0123456789'' c"

definition digit_val :: "char \<Rightarrow> nat" where
  "digit_val c = of_char c - 48"

text \<open>
  \<open>str.upper\<close>, one character at a time: \<open>a\<close> to \<open>z\<close> and U+00E0 to U+00FE (without U+00F7)
  move down by 32. The three code points below 256 whose upper case lies outside this range
  (U+00B5, U+00DF, U+00FF) are left as they are; no text that the program upper-cases
  holds one (it upper-cases matches of \<open>TIME_RANGE_RE\<close> only).
\<close>

definition upper_char :: "char \<Rightarrow> char" where
  "upper_char c =
     (let n = (of_char c :: nat) in
      if (97 \<le> n \<and> n \<le> 122) \<or> (224 \<le> n \<and> n \<le> 254 \<and> n \<noteq> 247)
      then char_of (n - 32) else c)"

definition upper :: "string \<Rightarrow> string" where
  "upper s = map upper_char s"

text \<open>\<open>str.lower\<close>: \<open>A\<close> to \<open>Z\<close> and U+00C0 to U+00DE (without U+00D7) move up by 32.\<close>

definition lower_char :: "char \<Rightarrow> char" where
  "lower_char c =
     (let n = (of_char c :: nat) in
      if (65 \<le> n \<and> n \<le> 90) \<or> (192 \<le> n \<and> n \<le> 222 \<and> n \<noteq> 215)
      then char_of (n + 32) else c)"

definition lower :: "string \<Rightarrow> string" where
  "lower s = map lower_char s"

text \<open>\<open>s.replace(old, new)\<close> for a one-character \<open>old\<close>.\<close>

definition replace :: "char \<Rightarrow> string \<Rightarrow> string \<Rightarrow> string" where
  "replace old new s = concat (map (\<lambda>c. if c = old then new else [c]) s)"

text \<open>\<open>s.strip()\<close>: white space removed at both ends.\<close>

definition strip :: "string \<Rightarrow> string" where
  "strip s = rev (dropWhile is_space (rev (dropWhile is_space s)))"

text \<open>
  \<open>s.split()\<close>: the maximal runs of characters that are not white space. The second
  argument holds the run being read, reversed.
\<close>

fun split_acc :: "string \<Rightarrow> string \<Rightarrow> string list" where
  "split_acc [] w = (if w = [] then [] else [rev w])"
| "split_acc (c # cs) w =
     (if is_space c then (if w = [] then split_acc cs [] else rev w # split_acc cs [])
      else split_acc cs (c # w))"

definition split :: "string \<Rightarrow> string list" where
  "split s = split_acc s []"

text \<open>\<open>sep.join(parts)\<close>.\<close>

fun join :: "string \<Rightarrow> string list \<Rightarrow> string" where
  "join sep [] = []"
| "join sep [x] = x"
| "join sep (x # y # ys) = x @ sep @ join sep (y # ys)"

section \<open>Dates and times (module datetime)\<close>

text \<open>
  \<open>datetime.date\<close> has the fields year, month and day; \<open>datetime.datetime\<close> is its subclass
  with hour, minute and second (the microsecond is 0 in every value the program builds).
\<close>

record date =
  year :: int
  month :: int
  day :: int

record datetime = date +
  hour :: nat
  minute :: nat
  second :: nat

definition is_leap :: "int \<Rightarrow> bool" where
  "is_leap y = (y mod 4 = 0 \<and> (y mod 100 \<noteq> 0 \<or> y mod 400 = 0))"

definition days_in_month :: "int \<Rightarrow> int \<Rightarrow> int" where
  "days_in_month y m =
     (if m = 2 then (if is_leap y then 29 else 28)
      else if m \<in> {4, 6, 9, 11} then 30 else 31)"

definition MINYEAR :: int where "MINYEAR = 1"
definition MAXYEAR :: int where "MAXYEAR = 9999"

text \<open>
  \<open>dt.date(y, m, d)\<close>. The C implementation reads its arguments as C ints first
  (OverflowError beyond 32 bits) and then checks the ranges (ValueError).
\<close>

definition fits_c_int :: "int \<Rightarrow> bool" where
  "fits_c_int n = (- (2 ^ 31) \<le> n \<and> n < 2 ^ 31)"

definition valid_date :: "int \<Rightarrow> int \<Rightarrow> int \<Rightarrow> bool" where
  "valid_date y m d =
     (MINYEAR \<le> y \<and> y \<le> MAXYEAR \<and> 1 \<le> m \<and> m \<le> 12 \<and> 1 \<le> d \<and> d \<le> days_in_month y m)"

definition date_new :: "int \<Rightarrow> int \<Rightarrow> int \<Rightarrow> py_error + date" where
  "date_new y m d =
     (if \<not> (fits_c_int y \<and> fits_c_int m \<and> fits_c_int d) then Inl OverflowError
      else if \<not> valid_date y m d then Inl ValueError
      else Inr \<lparr>year = y, month = m, day = d\<rparr>)"

text \<open>\<open>dt.datetime.combine(d, dt.time(h, mi))\<close>: the second is 0.\<close>

definition combine :: "date \<Rightarrow> nat \<Rightarrow> nat \<Rightarrow> datetime" where
  "combine d h mi =
     \<lparr>year = year d, month = month d, day = day d, hour = h, minute = mi, second = 0\<rparr>"

text \<open>
  Comparison of two datetimes is the comparison of the tuples
  (year, month, day, hour, minute, second): \<open>cmp\<close> is -1, 0 or 1.
\<close>

fun cmp_list :: "int list \<Rightarrow> int list \<Rightarrow> int" where
  "cmp_list (x # xs) (y # ys) = (if x < y then -1 else if y < x then 1 else cmp_list xs ys)"
| "cmp_list [] [] = 0"
| "cmp_list [] (y # ys) = -1"
| "cmp_list (x # xs) [] = 1"

definition getstate :: "datetime \<Rightarrow> int list" where
  "getstate t = [year t, month t, day t, int (hour t), int (minute t), int (second t)]"

definition cmp :: "datetime \<Rightarrow> datetime \<Rightarrow> int" where
  "cmp a b = cmp_list (getstate a) (getstate b)"

definition datetime_le :: "datetime \<Rightarrow> datetime \<Rightarrow> bool" where
  "datetime_le a b = (cmp a b \<le> 0)"

definition datetime_lt :: "datetime \<Rightarrow> datetime \<Rightarrow> bool" where
  "datetime_lt a b = (cmp a b < 0)"

text \<open>
  The calendar day after a date. The last date is 9999-12-31: a result past it is
  ``OverflowError: date value out of range''.
\<close>

definition next_day :: "datetime \<Rightarrow> py_error + datetime" where
  "next_day t =
     (if day t < days_in_month (year t) (month t) then Inr (t\<lparr>day := day t + 1\<rparr>)
      else if month t < 12 then Inr (t\<lparr>month := month t + 1, day := 1\<rparr>)
      else if year t < MAXYEAR then Inr (t\<lparr>year := year t + 1, month := 1, day := 1\<rparr>)
      else Inl OverflowError)"

fun add_days :: "datetime \<Rightarrow> nat \<Rightarrow> py_error + datetime" where
  "add_days t 0 = Inr t"
| "add_days t (Suc n) = (case next_day t of Inl e \<Rightarrow> Inl e | Inr t' \<Rightarrow> add_days t' n)"

text \<open>
  \<open>dt.timedelta(days, hours=h, minutes=mi)\<close> normalised to days and seconds, and
  \<open>t + delta\<close> for a delta that is not negative: the seconds are added to the time of day,
  whole days carry into the date.
\<close>

record timedelta =
  days :: nat
  seconds :: nat

definition timedelta_new :: "nat \<Rightarrow> nat \<Rightarrow> nat \<Rightarrow> timedelta" where
  "timedelta_new d h mi =
     (let s = h * 3600 + mi * 60 in \<lparr>days = d + s div 86400, seconds = s mod 86400\<rparr>)"

definition datetime_add :: "datetime \<Rightarrow> timedelta \<Rightarrow> py_error + datetime" where
  "datetime_add t delta =
     (let s = hour t * 3600 + minute t * 60 + second t + seconds delta;
          r = s mod 86400
      in add_days (t\<lparr>hour := r div 3600, minute := r mod 3600 div 60, second := r mod 60\<rparr>)
                  (days delta + s div 86400))"

text \<open>
  \<open>toordinal\<close>: the number of the day, 0001-01-01 being day 1, computed as the module does
  (\<open>_days_before_year\<close>, \<open>_days_before_month\<close>, \<open>_ymd2ord\<close>); \<open>total_seconds\<close> counts
  the seconds of a datetime from the start of day 0.
\<close>

definition days_before_year :: "int \<Rightarrow> int" where
  "days_before_year y = (let p = y - 1 in p * 365 + p div 4 - p div 100 + p div 400)"

definition DAYS_BEFORE_MONTH :: "int list" where
  "DAYS_BEFORE_MONTH = [-1, 0, 31, 59, 90, 120, 151, 181, 212, 243, 273, 304, 334]"

definition days_before_month :: "int \<Rightarrow> int \<Rightarrow> int" where
  "days_before_month y m = DAYS_BEFORE_MONTH ! nat m + (if m > 2 \<and> is_leap y then 1 else 0)"

definition toordinal :: "datetime \<Rightarrow> int" where
  "toordinal t = days_before_year (year t) + days_before_month (year t) (month t) + day t"

definition total_seconds :: "datetime \<Rightarrow> int" where
  "total_seconds t =
     toordinal t * 86400 + int (hour t) * 3600 + int (minute t) * 60 + int (second t)"

definition valid_datetime :: "datetime \<Rightarrow> bool" where
  "valid_datetime t =
     (valid_date (year t) (month t) (day t) \<and> hour t < 24 \<and> minute t < 60 \<and> second t < 60)"

section \<open>The Time Interpreter\<close>

subsection \<open>The pattern \<open>TIME_RANGE_RE\<close>\<close>

text \<open>
  \<^verbatim>\<open>^\s*([0-9]{1,2}:[0-9]{2}\s*[AP]M)\s*-\s*([0-9]{1,2}:[0-9]{2}\s*[AP]M)\s*$\<close>, compiled
  with \<open>re.I\<close>. Each repetition of the pattern is followed by a character outside its
  own class, so the greedy choice is the only one that can match and the matcher needs
  no backtracking. The functions return the text matched and the text left.
\<close>

definition skip_space :: "string \<Rightarrow> string" where
  "skip_space s = dropWhile is_space s"

text \<open>\<open>[0-9]{1,2}:\<close>\<close>

definition hour_colon :: "string \<Rightarrow> (string \<times> string) option" where
  "hour_colon s =
     (case s of
        a # b # r \<Rightarrow>
          if is_digit a \<and> b = CHR '':'' then Some ([a, b], r)
          else if is_digit a \<and> is_digit b then
            (case r of
               c # r' \<Rightarrow> if c = CHR '':'' then Some ([a, b, c], r') else None
             | [] \<Rightarrow> None)
          else None
      | _ \<Rightarrow> None)"

text \<open>\<open>[0-9]{2}\<close>\<close>

definition two_digits :: "string \<Rightarrow> (string \<times> string) option" where
  "two_digits s =
     (case s of
        a # b # r \<Rightarrow> if is_digit a \<and> is_digit b then Some ([a, b], r) else None
      | _ \<Rightarrow> None)"

text \<open>\<open>[AP]M\<close>, ignoring case\<close>

definition meridiem :: "string \<Rightarrow> (string \<times> string) option" where
  "meridiem s =
     (case s of
        a # b # r \<Rightarrow>
          if one_of ''APap'' a \<and> one_of ''Mm'' b then Some ([a, b], r) else None
      | _ \<Rightarrow> None)"

text \<open>One group: \<open>[0-9]{1,2}:[0-9]{2}\s*[AP]M\<close>\<close>

definition clock :: "string \<Rightarrow> (string \<times> string) option" where
  "clock s =
     (case hour_colon s of
        None \<Rightarrow> None
      | Some (h, r1) \<Rightarrow>
          (case two_digits r1 of
             None \<Rightarrow> None
           | Some (mi, r2) \<Rightarrow>
               (case meridiem (skip_space r2) of
                  None \<Rightarrow> None
                | Some (ap, r3) \<Rightarrow> Some (h @ mi @ takeWhile is_space r2 @ ap, r3))))"

text \<open>The whole pattern: \<open>None\<close> when there is no match, else the two groups.\<close>

definition TIME_RANGE_RE :: "string \<Rightarrow> (string \<times> string) option" where
  "TIME_RANGE_RE text =
     (case clock (skip_space text) of
        None \<Rightarrow> None
      | Some (g1, r1) \<Rightarrow>
          (case skip_space r1 of
             [] \<Rightarrow> None
           | c # r2 \<Rightarrow>
               if c \<noteq> CHR ''-'' then None
               else (case clock (skip_space r2) of
                       None \<Rightarrow> None
                     | Some (g2, r3) \<Rightarrow> if skip_space r3 = [] then Some (g1, g2) else None)))"

subsection \<open>\<open>strptime\<close> with the format \<open>%I:%M%p\<close>\<close>

text \<open>
  \<open>_strptime\<close> turns the format into the regular expression
  \<^verbatim>\<open>(?P<I>1[0-2]|0[1-9]|[1-9]):(?P<M>[0-5]\d|\d)(?P<p>am|pm)\<close> (ignoring case, in the C
  locale), matches it at the start of the text and raises ValueError when it does not
  match or when text is left over. The functions return the number read and the text left.
\<close>

text \<open>\<open>(1[0-2]|0[1-9]|[1-9]):\<close>\<close>

definition strptime_I :: "string \<Rightarrow> (nat \<times> string) option" where
  "strptime_I s =
     (case s of
        a # b # r \<Rightarrow>
          if one_of ''123456789'' a \<and> b = CHR '':'' then Some (digit_val a, r)
          else if (a = CHR ''1'' \<and> one_of ''012'' b) \<or> (a = CHR ''0'' \<and> one_of ''123456789'' b) then
            (case r of
               c # r' \<Rightarrow>
                 if c = CHR '':'' then Some (10 * digit_val a + digit_val b, r') else None
             | [] \<Rightarrow> None)
          else None
      | _ \<Rightarrow> None)"

text \<open>\<open>([0-5]\d|\d)\<close>; what follows is a letter, so a first digit alone is read only when
  the second character is no digit or the first is above 5.\<close>

definition strptime_M :: "string \<Rightarrow> (nat \<times> string) option" where
  "strptime_M s =
     (case s of
        [] \<Rightarrow> None
      | [a] \<Rightarrow> if is_digit a then Some (digit_val a, []) else None
      | a # b # r \<Rightarrow>
          if one_of ''012345'' a \<and> is_digit b then Some (10 * digit_val a + digit_val b, r)
          else if is_digit a then Some (digit_val a, b # r)
          else None)"

text \<open>\<open>(am|pm)\<close>, ignoring case: \<open>True\<close> for pm.\<close>

definition strptime_p :: "string \<Rightarrow> (bool \<times> string) option" where
  "strptime_p s =
     (case s of
        a # b # r \<Rightarrow>
          if one_of ''APap'' a \<and> one_of ''Mm'' b then Some (one_of ''Pp'' a, r) else None
      | _ \<Rightarrow> None)"

definition strptime :: "string \<Rightarrow> py_error + (nat \<times> nat)" where
  "strptime s =
     (case strptime_I s of
        None \<Rightarrow> Inl ValueError
      | Some (h, r1) \<Rightarrow>
          (case strptime_M r1 of
             None \<Rightarrow> Inl ValueError
           | Some (mi, r2) \<Rightarrow>
               (case strptime_p r2 of
                  None \<Rightarrow> Inl ValueError
                | Some (pm, r3) \<Rightarrow>
                    if r3 \<noteq> [] then Inl ValueError
                    else Inr (if pm then (if h \<noteq> 12 then h + 12 else h)
                              else (if h = 12 then 0 else h), mi))))"

subsection \<open>\<open>parse_time_range\<close>\<close>

text \<open>\<open>to_hm\<close>: \<open>s.upper().replace(" ", "")\<close>, then \<open>strptime\<close>; only U+0020 is removed.\<close>

definition to_hm :: "string \<Rightarrow> py_error + (nat \<times> nat)" where
  "to_hm s = strptime (replace CHR '' '' [] (upper s))"

definition parse_time_range :: "string \<Rightarrow> date \<Rightarrow> py_error + (datetime \<times> datetime)" where
  "parse_time_range text base_date =
     (case TIME_RANGE_RE text of
        None \<Rightarrow>
          (let start = combine base_date 0 0 in
           case datetime_add start (timedelta_new 0 23 59) of
             Inl e \<Rightarrow> Inl e
           | Inr end' \<Rightarrow> Inr (start, end'))
      | Some (g1, g2) \<Rightarrow>
          (case to_hm g1 of
             Inl e \<Rightarrow> Inl e
           | Inr (sh, sm) \<Rightarrow>
               (case to_hm g2 of
                  Inl e \<Rightarrow> Inl e
                | Inr (eh, em) \<Rightarrow>
                    (let start = combine base_date sh sm;
                         end' = combine base_date eh em
                     in if datetime_le end' start then
                          (case datetime_add end' (timedelta_new 1 0 0) of
                             Inl e \<Rightarrow> Inl e
                           | Inr end'' \<Rightarrow> Inr (start, end''))
                        else Inr (start, end')))))"

section \<open>The Feed Serializer\<close>

subsection \<open>Numbers as text\<close>

text \<open>The decimal digits of a number, and \<open>%0wd\<close>: zeros in front up to the width \<open>w\<close>.\<close>

definition digit_char :: "nat \<Rightarrow> char" where
  "digit_char n = (''0123456789'' ! (n mod 10))"

fun dec :: "nat \<Rightarrow> string" where
  "dec n = (if n < 10 then [digit_char n] else dec (n div 10) @ [digit_char (n mod 10)])"

declare dec.simps [simp del]

definition zfill :: "nat \<Rightarrow> string \<Rightarrow> string" where
  "zfill w s = replicate (w - length s) CHR ''0'' @ s"

text \<open>
  \<open>strftime("%Y%m%dT%H%M%S")\<close>. The C library formats the year without zeros in front
  (glibc; year 999 gives \<open>999\<close>), the other fields with two digits.
\<close>

definition strftime :: "datetime \<Rightarrow> string" where
  "strftime t =
     dec (nat (year t)) @ zfill 2 (dec (nat (month t))) @ zfill 2 (dec (nat (day t))) @ ''T'' @
     zfill 2 (dec (hour t)) @ zfill 2 (dec (minute t)) @ zfill 2 (dec (second t))"

text \<open>\<open>isoformat()\<close> of a datetime without microseconds: \<open>%04d-%02d-%02dT%02d:%02d:%02d\<close>.\<close>

definition isoformat :: "datetime \<Rightarrow> string" where
  "isoformat t =
     zfill 4 (dec (nat (year t))) @ ''-'' @ zfill 2 (dec (nat (month t))) @ ''-'' @
     zfill 2 (dec (nat (day t))) @ ''T'' @
     zfill 2 (dec (hour t)) @ '':'' @ zfill 2 (dec (minute t)) @ '':'' @ zfill 2 (dec (second t))"

subsection \<open>\<open>ics_escape\<close> and \<open>ics_dt\<close>\<close>

definition BACKSLASH :: char where
  "BACKSLASH = CHR 0x5C"

definition ics_escape :: "string \<Rightarrow> string" where
  "ics_escape s =
     replace CHR '','' [BACKSLASH, CHR '','']
       (replace CHR '';'' [BACKSLASH, CHR '';'']
          (replace BACKSLASH [BACKSLASH, BACKSLASH] s))"

text \<open>\<open>tzid\<close> is \<open>Optional[str]\<close>; \<open>if tzid\<close> is false for \<open>None\<close> and for the empty text.\<close>

definition truthy :: "string option \<Rightarrow> bool" where
  "truthy x = (case x of None \<Rightarrow> False | Some s \<Rightarrow> s \<noteq> [])"

definition ics_dt :: "datetime \<Rightarrow> string option \<Rightarrow> string" where
  "ics_dt dt_obj tzid =
     (let stamp = strftime dt_obj
      in if truthy tzid then '';TZID='' @ the tzid @ '':'' @ stamp else '':'' @ stamp)"

subsection \<open>SHA-1 (\<open>hashlib.sha1\<close>)\<close>

text \<open>
  \<open>str.encode("utf-8")\<close> for code points below 256: one byte below 128, two bytes from
  128 on.
\<close>

definition utf8_char :: "char \<Rightarrow> nat list" where
  "utf8_char c =
     (let n = (of_char c :: nat)
      in if n < 128 then [n] else [192 + n div 64, 128 + n mod 64])"

definition encode_utf8 :: "string \<Rightarrow> nat list" where
  "encode_utf8 s = concat (map utf8_char s)"

text \<open>
  SHA-1 as FIPS 180-4 defines it, on a list of bytes: the message is padded with the byte
  0x80, zero bytes up to 56 modulo 64 and its length in bits as 8 bytes; every block of
  64 bytes is read as 16 words, extended to 80 words and run through 80 rounds.
\<close>

unbundle bit_operations_syntax

type_synonym w32 = "32 word"

definition be_bytes :: "nat \<Rightarrow> nat \<Rightarrow> nat list" where
  "be_bytes k n = map (\<lambda>i. (n div 256 ^ (k - 1 - i)) mod 256) [0..<k]"

definition sha1_pad :: "nat list \<Rightarrow> nat list" where
  "sha1_pad m =
     m @ [128] @ replicate ((119 - length m mod 64) mod 64) 0 @ be_bytes 8 (8 * length m)"

definition word_of_bytes :: "nat list \<Rightarrow> w32" where
  "word_of_bytes bs = of_nat (foldl (\<lambda>acc b. acc * 256 + b) 0 bs)"

fun chunks :: "nat \<Rightarrow> nat \<Rightarrow> 'a list \<Rightarrow> 'a list list" where
  "chunks 0 k xs = []"
| "chunks (Suc n) k xs = take k xs # chunks n k (drop k xs)"

definition block_words :: "nat list \<Rightarrow> w32 list" where
  "block_words block = map word_of_bytes (chunks 16 4 block)"

fun message_schedule :: "nat \<Rightarrow> w32 list \<Rightarrow> w32 list" where
  "message_schedule 0 w = w"
| "message_schedule (Suc k) w =
     (let n = length w
      in message_schedule k (w @ [word_rotl 1 (w ! (n - 3) XOR w ! (n - 8) XOR w ! (n - 14) XOR w ! (n - 16))]))"

type_synonym sha1_state = "w32 \<times> w32 \<times> w32 \<times> w32 \<times> w32"

definition sha1_round :: "nat \<Rightarrow> w32 \<Rightarrow> sha1_state \<Rightarrow> sha1_state" where
  "sha1_round i wi st =
     (case st of (a, b, c, d, e) \<Rightarrow>
        let f = (if i < 20 then (b AND c) OR (NOT b AND d)
                 else if i < 40 then b XOR c XOR d
                 else if i < 60 then (b AND c) OR (b AND d) OR (c AND d)
                 else b XOR c XOR d);
            k = (if i < 20 then 0x5A827999 else if i < 40 then 0x6ED9EBA1
                 else if i < 60 then 0x8F1BBCDC else 0xCA62C1D6);
            temp = word_rotl 5 a + f + e + k + wi
        in (temp, a, word_rotl 30 b, c, d))"

fun sha1_rounds :: "nat \<Rightarrow> w32 list \<Rightarrow> sha1_state \<Rightarrow> sha1_state" where
  "sha1_rounds i [] st = st"
| "sha1_rounds i (wi # ws) st = sha1_rounds (Suc i) ws (sha1_round i wi st)"

definition sha1_block :: "sha1_state \<Rightarrow> nat list \<Rightarrow> sha1_state" where
  "sha1_block h block =
     (case h of (h0, h1, h2, h3, h4) \<Rightarrow>
        case sha1_rounds 0 (message_schedule 64 (block_words block)) h of (a, b, c, d, e) \<Rightarrow>
          (h0 + a, h1 + b, h2 + c, h3 + d, h4 + e))"

definition sha1_init :: sha1_state where
  "sha1_init = (0x67452301, 0xEFCDAB89, 0x98BADCFE, 0x10325476, 0xC3D2E1F0)"

definition sha1 :: "nat list \<Rightarrow> sha1_state" where
  "sha1 m =
     (let p = sha1_pad m
      in foldl sha1_block sha1_init (chunks (length p div 64) 64 p))"

text \<open>\<open>hexdigest()\<close>: the five words, eight lower-case hexadecimal digits each.\<close>

definition hex_char :: "nat \<Rightarrow> char" where
  "hex_char n = (''0123456789abcdef'' ! (n mod 16))"

definition hex_word :: "w32 \<Rightarrow> string" where
  "hex_word w = map (\<lambda>i. hex_char (unat w div 16 ^ (7 - i))) [0..<8]"

definition hexdigest :: "sha1_state \<Rightarrow> string" where
  "hexdigest h =
     (case h of (h0, h1, h2, h3, h4) \<Rightarrow>
        hex_word h0 @ hex_word h1 @ hex_word h2 @ hex_word h3 @ hex_word h4)"

subsection \<open>\<open>make_uid\<close>\<close>

definition uid_data :: "string \<Rightarrow> datetime \<Rightarrow> datetime \<Rightarrow> string" where
  "uid_data title start end' = title @ ''|'' @ isoformat start @ ''|'' @ isoformat end'"

definition make_uid :: "string \<Rightarrow> datetime \<Rightarrow> datetime \<Rightarrow> string" where
  "make_uid title start end' =
     hexdigest (sha1 (encode_utf8 (uid_data title start end'))) @ ''@myvmk''"

subsection \<open>\<open>build_ics\<close>\<close>

text \<open>
  An event is the dict that \<open>scrape_events\<close> builds: the keys \<open>title\<close>, \<open>start\<close>, \<open>end\<close>
  and \<open>source\<close>. \<open>build_ics\<close> reads the last one with \<open>ev.get("source")\<close>, so it may be
  absent.
\<close>

record event =
  ev_title :: string
  ev_start :: datetime
  ev_end :: datetime
  ev_source :: "string option"

definition PLACEHOLDER :: string where
  "PLACEHOLDER = ''MyVMK Event''"

text \<open>The lines that one pass of the loop over the events appends. \<open>now\<close> is the text of
  the current time in UTC, taken once before the loop.\<close>

definition vevent :: "string \<Rightarrow> string option \<Rightarrow> event \<Rightarrow> string list" where
  "vevent now tzid ev =
     (let title = (if ev_title ev \<noteq> [] then ev_title ev else PLACEHOLDER);
          start = ev_start ev;
          end' = ev_end ev;
          uid = make_uid title start end'
      in [''BEGIN:VEVENT'',
          ''DTSTAMP:'' @ now,
          ''UID:'' @ uid,
          ''SUMMARY:'' @ ics_escape title,
          ''DTSTART'' @ ics_dt start tzid,
          ''DTEND'' @ ics_dt end' tzid]
         @ (if truthy (ev_source ev) then [''DESCRIPTION:'' @ ics_escape (the (ev_source ev))] else [])
         @ [''END:VEVENT''])"

fun event_loop :: "string \<Rightarrow> string option \<Rightarrow> string list \<Rightarrow> event list \<Rightarrow> string list" where
  "event_loop now tzid lines [] = lines"
| "event_loop now tzid lines (ev # evs) = event_loop now tzid (lines @ vevent now tzid ev) evs"

definition LF :: char where
  "LF = CHR 0x0A"

definition build_ics :: "datetime \<Rightarrow> event list \<Rightarrow> string option \<Rightarrow> string \<Rightarrow> string" where
  "build_ics utcnow events tzid cal_name =
     (let now = strftime utcnow @ ''Z'';
          lines = [''BEGIN:VCALENDAR'',
                   ''VERSION:2.0'',
                   ''PRODID:-//MyVMK Scraper//EN'',
                   ''CALSCALE:GREGORIAN'',
                   ''X-WR-CALNAME:'' @ ics_escape cal_name];
          lines = event_loop now tzid lines events;
          lines = lines @ [''END:VCALENDAR'']
      in join [LF] lines @ [LF])"

text \<open>The five lines \<open>build_ics\<close> starts the document with.\<close>

definition header_lines :: "string \<Rightarrow> string list" where
  "header_lines cal_name =
     [''BEGIN:VCALENDAR'', ''VERSION:2.0'', ''PRODID:-//MyVMK Scraper//EN'', ''CALSCALE:GREGORIAN'',
      ''X-WR-CALNAME:'' @ ics_escape cal_name]"

subsection \<open>Reading a document back\<close>

text \<open>
  The lines of a text, each ended by a line feed (text after the last line feed is a
  last line), and the check that the \<open>BEGIN:\<close> and \<open>END:\<close> lines of a document nest:
  every \<open>END:x\<close> closes the innermost open \<open>BEGIN:x\<close> and nothing stays open. The first
  argument of \<open>blocks_closed\<close> holds the names of the open blocks, innermost first.
\<close>

fun lines_acc :: "string \<Rightarrow> string \<Rightarrow> string list" where
  "lines_acc [] w = (if w = [] then [] else [rev w])"
| "lines_acc (c # cs) w = (if c = LF then rev w # lines_acc cs [] else lines_acc cs (c # w))"

definition text_lines :: "string \<Rightarrow> string list" where
  "text_lines s = lines_acc s []"

definition starts_with :: "string \<Rightarrow> string \<Rightarrow> bool" where
  "starts_with p s = (take (length p) s = p)"

fun blocks_closed :: "string list \<Rightarrow> string list \<Rightarrow> bool" where
  "blocks_closed opened [] = (opened = [])"
| "blocks_closed opened (l # ls) =
     (if starts_with ''BEGIN:'' l then blocks_closed (drop 6 l # opened) ls
      else if starts_with ''END:'' l then
        (case opened of [] \<Rightarrow> False | b # bs \<Rightarrow> b = drop 4 l \<and> blocks_closed bs ls)
      else blocks_closed opened ls)"

section \<open>The rendered document (BeautifulSoup)\<close>

text \<open>
  The parsed page is a tree of text nodes and elements. Of an element the program reads
  the tag name (lower case, as \<open>html.parser\<close> gives it), the \<open>class\<close> attribute (absent
  or its raw text) and the children. Comments and the contents of scripts and style
  sheets take no part in any search or text of the program and are left out.
\<close>

datatype node = Text string | Element string "string option" "node list"

text \<open>The descendants of a node in document order, which is the order of every search.\<close>

fun descendants :: "node \<Rightarrow> node list" where
  "descendants (Text s) = []"
| "descendants (Element nm cls kids) = concat (map (\<lambda>k. k # descendants k) kids)"

text \<open>
  \<open>class\<close> is a multi-valued attribute: the tree holds the list of its values, the raw
  text split at white space. A search with \<open>class_=f\<close> for a function \<open>f\<close> calls \<open>f\<close> on every
  value of the list, one at a time, and, when none of them matches, on the values joined
  by a blank; an element without the attribute gives \<open>f(None)\<close>.
\<close>

definition attr_matches :: "(string option \<Rightarrow> bool) \<Rightarrow> string option \<Rightarrow> bool" where
  "attr_matches f cls =
     (case cls of
        None \<Rightarrow> f None
      | Some raw \<Rightarrow>
          (let vs = split raw
           in list_ex (\<lambda>v. f (Some v)) vs \<or> f (Some (join '' '' vs))))"

text \<open>\<open>find_all(names, class_=f)\<close> and \<open>find(names, class_=f)\<close> on a node.\<close>

definition tag_matches :: "string list \<Rightarrow> (string option \<Rightarrow> bool) \<Rightarrow> node \<Rightarrow> bool" where
  "tag_matches names f n =
     (case n of Text s \<Rightarrow> False | Element nm cls kids \<Rightarrow> nm \<in> set names \<and> attr_matches f cls)"

definition find_all :: "node \<Rightarrow> string list \<Rightarrow> (string option \<Rightarrow> bool) \<Rightarrow> node list" where
  "find_all root names f = filter (tag_matches names f) (descendants root)"

definition find :: "node \<Rightarrow> string list \<Rightarrow> (string option \<Rightarrow> bool) \<Rightarrow> node option" where
  "find root names f = (case find_all root names f of [] \<Rightarrow> None | n # ns \<Rightarrow> Some n)"

text \<open>\<open>find_all(names)\<close> with no condition on the class.\<close>

definition find_all_named :: "node \<Rightarrow> string list \<Rightarrow> node list" where
  "find_all_named root names =
     filter (\<lambda>n. case n of Text s \<Rightarrow> False | Element nm cls kids \<Rightarrow> nm \<in> set names)
            (descendants root)"

text \<open>\<open>select_one(".header")\<close>: the first element that has the class \<open>header\<close>.\<close>

definition select_one_class :: "node \<Rightarrow> string \<Rightarrow> node option" where
  "select_one_class root c =
     (case filter (\<lambda>n. case n of Text s \<Rightarrow> False
                        | Element nm cls kids \<Rightarrow>
                            (case cls of None \<Rightarrow> False | Some raw \<Rightarrow> c \<in> set (split raw)))
                  (descendants root) of
        [] \<Rightarrow> None
      | n # ns \<Rightarrow> Some n)"

text \<open>
  \<open>get_text(strip=True)\<close>: the text nodes below a node, each stripped, the empty ones
  dropped, joined without a separator. \<open>safe_text\<close> strips the result once more and gives
  the empty text for \<open>None\<close>.
\<close>

fun all_strings :: "node \<Rightarrow> string list" where
  "all_strings (Text s) = [s]"
| "all_strings (Element nm cls kids) = concat (map all_strings kids)"

definition get_text_strip :: "node \<Rightarrow> string" where
  "get_text_strip n = concat (filter (\<lambda>s. s \<noteq> []) (map strip (all_strings n)))"

definition safe_text :: "node option \<Rightarrow> string" where
  "safe_text x = (case x of None \<Rightarrow> [] | Some n \<Rightarrow> strip (get_text_strip n))"

section \<open>The Header Resolver\<close>

definition MONTHS :: "(string \<times> int) list" where
  "MONTHS =
     [(''january'', 1), (''february'', 2), (''march'', 3), (''april'', 4), (''may'', 5),
      (''june'', 6), (''july'', 7), (''august'', 8), (''september'', 9), (''october'', 10),
      (''november'', 11), (''december'', 12)]"

text \<open>
  \<open>re.search\<close> with the pattern \<^verbatim>\<open>(january|...|december)\s+(\d{4})\<close>: the first position
  of the text where a month name stands, followed by white space and four digits. No
  month name is the start of another one, and the white space is followed by a digit, so
  at one position at most one way of matching exists.
\<close>

definition int_of_digits :: "string \<Rightarrow> int" where
  "int_of_digits s = foldl (\<lambda>a c. 10 * a + int (digit_val c)) 0 s"

fun month_here :: "(string \<times> int) list \<Rightarrow> string \<Rightarrow> (int \<times> string) option" where
  "month_here [] s = None"
| "month_here ((name, m) # ms) s =
     (if starts_with name s then Some (m, drop (length name) s) else month_here ms s)"

definition match_here :: "string \<Rightarrow> (int \<times> int) option" where
  "match_here s =
     (case month_here MONTHS s of
        None \<Rightarrow> None
      | Some (m, r) \<Rightarrow>
          (let ds = take 4 (skip_space r)
           in if takeWhile is_space r \<noteq> [] \<and> length ds = 4 \<and> list_all is_digit ds
              then Some (int_of_digits ds, m) else None))"

fun search :: "string \<Rightarrow> (int \<times> int) option" where
  "search [] = None"
| "search (c # cs) = (case match_here (c # cs) of Some r \<Rightarrow> Some r | None \<Rightarrow> search cs)"

text \<open>The loop of \<open>parse_header_month_year\<close> over the candidate nodes.\<close>

fun first_match :: "node list \<Rightarrow> (int \<times> int) option" where
  "first_match [] = None"
| "first_match (n # ns) =
     (case search (lower (safe_text (Some n))) of Some r \<Rightarrow> Some r | None \<Rightarrow> first_match ns)"

definition parse_header_month_year :: "node \<Rightarrow> int option \<times> int option" where
  "parse_header_month_year soup =
     (let header = (case select_one_class soup ''header'' of
                      Some h \<Rightarrow> Some h
                    | None \<Rightarrow> find soup [''div''] (\<lambda>c. c = Some ''header''));
          candidates = (case header of Some h \<Rightarrow> [h] | None \<Rightarrow> [])
                       @ find_all_named soup [''h1'', ''h2'']
      in case first_match candidates of
           Some (y, m) \<Rightarrow> (Some y, Some m)
         | None \<Rightarrow> (None, None))"

text \<open>
  The month and year of \<open>scrape_events\<close>. An \<open>Optional[int]\<close> is true when it is neither
  \<open>None\<close> nor 0. \<open>today\<close> is the current local date.
\<close>

definition truthy_int :: "int option \<Rightarrow> bool" where
  "truthy_int x = (case x of None \<Rightarrow> False | Some n \<Rightarrow> n \<noteq> 0)"

definition month_context :: "node \<Rightarrow> date \<Rightarrow> int option \<Rightarrow> int option \<Rightarrow> int \<times> int" where
  "month_context soup today forced_year forced_month =
     (case parse_header_month_year soup of (y0, m0) \<Rightarrow>
        let y = (if truthy_int forced_year then forced_year else y0);
            m = (if truthy_int forced_month then forced_month else m0)
        in if \<not> (truthy_int y \<and> truthy_int m) then (year today, month today)
           else (the y, the m))"

section \<open>The Event Extractor\<close>

text \<open>The functions given as \<open>class_\<close> in \<open>scrape_events\<close>.\<close>

definition class_has :: "string \<Rightarrow> string option \<Rightarrow> bool" where
  "class_has w c = (case c of None \<Rightarrow> False | Some s \<Rightarrow> s \<noteq> [] \<and> w \<in> set (split s))"

definition class_day_not_hidden :: "string option \<Rightarrow> bool" where
  "class_day_not_hidden c =
     (case c of
        None \<Rightarrow> False
      | Some s \<Rightarrow> s \<noteq> [] \<and> ''day'' \<in> set (split s) \<and> ''hidden'' \<notin> set (split s))"

definition class_event_targetable :: "string option \<Rightarrow> bool" where
  "class_event_targetable c =
     (case c of
        None \<Rightarrow> False
      | Some s \<Rightarrow> s \<noteq> [] \<and> ''event'' \<in> set (split s) \<and> ''day-targetable'' \<in> set (split s))"

text \<open>
  \<open>str.isdigit\<close> holds for a text that is not empty and made of the digits 0 to 9 and the
  superscripts U+00B2, U+00B3 and U+00B9. \<open>int\<close> reads the digits 0 to 9 only and raises
  ValueError for a superscript, and for more than 4300 digits.
\<close>

definition isdigit :: "string \<Rightarrow> bool" where
  "isdigit s = (s \<noteq> [] \<and> list_all (\<lambda>c. is_digit c \<or> one_of [CHR 0xB2, CHR 0xB3, CHR 0xB9] c) s)"

definition py_int :: "string \<Rightarrow> py_error + int" where
  "py_int s =
     (if \<not> list_all is_digit s \<or> 4300 < length s then Inl ValueError
      else Inr (int_of_digits s))"

text \<open>The body of the loop over the \<open>li\<close> nodes of a day: \<open>None\<close> is \<open>continue\<close>.\<close>

definition li_title :: "node \<Rightarrow> string" where
  "li_title li =
     (let container = (case find li [''div''] class_event_targetable of
                         Some c \<Rightarrow> c | None \<Rightarrow> li)
      in safe_text (find container [''p''] (class_has ''event-title'')))"

definition li_time :: "node \<Rightarrow> string" where
  "li_time li =
     (let container = (case find li [''div''] class_event_targetable of
                         Some c \<Rightarrow> c | None \<Rightarrow> li)
      in safe_text (find container [''p''] (class_has ''event-time'')))"

definition li_event :: "string \<Rightarrow> date \<Rightarrow> node \<Rightarrow> py_error + event option" where
  "li_event url base_date li =
     (let title = li_title li;
          time_txt = li_time li
      in if title = [] \<and> time_txt = [] then Inr None
         else (case parse_time_range time_txt base_date of
                 Inl e \<Rightarrow> Inl e
               | Inr (start_dt, end_dt) \<Rightarrow>
                   Inr (Some \<lparr>ev_title = (if title \<noteq> [] then title else PLACEHOLDER),
                              ev_start = start_dt, ev_end = end_dt, ev_source = Some url\<rparr>)))"

fun li_loop :: "string \<Rightarrow> date \<Rightarrow> node list \<Rightarrow> py_error + event list" where
  "li_loop url base_date [] = Inr []"
| "li_loop url base_date (li # lis) =
     (case li_event url base_date li of
        Inl e \<Rightarrow> Inl e
      | Inr r \<Rightarrow>
          (case li_loop url base_date lis of
             Inl e \<Rightarrow> Inl e
           | Inr evs \<Rightarrow> Inr (case r of None \<Rightarrow> evs | Some ev \<Rightarrow> ev # evs)))"

text \<open>
  The body of the loop over the day containers: the events of one container. A
  container without a number, with a number that is no digit text, or with a day that
  the month does not have gives none; the ValueError of \<open>dt.date\<close> is the only exception
  caught.
\<close>

definition day_events :: "string \<Rightarrow> int \<Rightarrow> int \<Rightarrow> node \<Rightarrow> py_error + event list" where
  "day_events url y m day_div =
     (case find day_div [''p''] (class_has ''number'') of
        None \<Rightarrow> Inr []
      | Some num_tag \<Rightarrow>
          (let day_str = safe_text (Some num_tag)
           in if \<not> isdigit day_str then Inr []
              else (case py_int day_str of
                      Inl e \<Rightarrow> Inl e
                    | Inr day_num \<Rightarrow>
                        (case date_new y m day_num of
                           Inl ValueError \<Rightarrow> Inr []
                         | Inl e \<Rightarrow> Inl e
                         | Inr base_date \<Rightarrow>
                             li_loop url base_date
                               (find_all day_div [''li''] (class_has ''event-li''))))))"

fun day_loop :: "string \<Rightarrow> int \<Rightarrow> int \<Rightarrow> node list \<Rightarrow> py_error + event list" where
  "day_loop url y m [] = Inr []"
| "day_loop url y m (d # ds) =
     (case day_events url y m d of
        Inl e \<Rightarrow> Inl e
      | Inr evs \<Rightarrow>
          (case day_loop url y m ds of
             Inl e \<Rightarrow> Inl e
           | Inr evs' \<Rightarrow> Inr (evs @ evs')))"

text \<open>
  \<open>scrape_events\<close>, on the parsed page that \<open>load_html(url)\<close> gave. The debug output of
  \<open>verbose\<close> is left out.
\<close>

definition scrape_events ::
  "node \<Rightarrow> date \<Rightarrow> string \<Rightarrow> int option \<Rightarrow> int option \<Rightarrow> py_error + event list" where
  "scrape_events soup today url forced_year forced_month =
     (case month_context soup today forced_year forced_month of (y, m) \<Rightarrow>
        day_loop url y m (find_all soup [''div''] class_day_not_hidden))"

section \<open>Properties of the calendar arithmetic\<close>

lemma div_pred:
  fixes y k :: int
  assumes "0 < k"
  shows "(y - 1) div k = (if y mod k = 0 then y div k - 1 else y div k)"
proof (cases "y mod k = 0")
  case True
  define q where "q = y div k"
  have "k * q = y" unfolding q_def using True by (simp add: mod_eq_0_iff_dvd)
  then have "y - 1 = k * (q - 1) + (k - 1)" by (simp add: right_diff_distrib)
  from int_div_pos_eq [OF this] assms have "(y - 1) div k = q - 1" by simp
  then show ?thesis using True by (simp add: q_def)
next
  case False
  define q where "q = y div k"
  define r where "r = y mod k"
  have "0 \<le> r" "r < k" "r \<noteq> 0" using assms False by (simp_all add: r_def)
  then have r: "0 \<le> r - 1" "r - 1 < k" by simp_all
  have "k * q + r = y" unfolding q_def r_def by simp
  then have "y - 1 = k * q + (r - 1)" by simp
  from int_div_pos_eq [OF this r] have "(y - 1) div k = q" .
  then show ?thesis using False by (simp add: q_def)
qed

lemma days_before_year_Suc:
  "days_before_year (y + 1) = days_before_year y + (if is_leap y then 366 else 365)"
proof -
  define a where "a = y div 4"
  define b where "b = y div 100"
  define c where "c = y div 400"
  have pa: "(y - 1) div 4 = (if y mod 4 = 0 then a - 1 else a)" unfolding a_def by (rule div_pred) simp
  have pb: "(y - 1) div 100 = (if y mod 100 = 0 then b - 1 else b)" unfolding b_def by (rule div_pred) simp
  have pc: "(y - 1) div 400 = (if y mod 400 = 0 then c - 1 else c)" unfolding c_def by (rule div_pred) simp
  have "(4::int) dvd 100" by simp
  then have d: "y mod 100 = 0 \<Longrightarrow> y mod 4 = 0"
    unfolding mod_eq_0_iff_dvd by (rule dvd_trans)
  have "(100::int) dvd 400" by simp
  then have e: "y mod 400 = 0 \<Longrightarrow> y mod 100 = 0"
    unfolding mod_eq_0_iff_dvd by (rule dvd_trans)
  have "days_before_year (y + 1) = y * 365 + a - b + c"
    by (simp add: days_before_year_def Let_def a_def b_def c_def)
  moreover have "days_before_year y = (y - 1) * 365 + (y - 1) div 4 - (y - 1) div 100 + (y - 1) div 400"
    by (simp add: days_before_year_def Let_def)
  ultimately show ?thesis
    unfolding pa pb pc is_leap_def using d e by (simp add: left_diff_distrib)
qed

lemma month_cases:
  "1 \<le> (m::int) \<Longrightarrow> m < 12 \<Longrightarrow>
   m = 1 \<or> m = 2 \<or> m = 3 \<or> m = 4 \<or> m = 5 \<or> m = 6 \<or> m = 7 \<or> m = 8 \<or> m = 9 \<or> m = 10 \<or> m = 11"
  by arith

lemma days_before_month_Suc:
  "1 \<le> m \<Longrightarrow> m < 12 \<Longrightarrow> days_before_month y (m + 1) = days_before_month y m + days_in_month y m"
  apply (drule (1) month_cases)
  apply (elim disjE)
  apply (simp_all add: days_before_month_def DAYS_BEFORE_MONTH_def days_in_month_def)
  done

lemma days_before_month_1: "days_before_month y 1 = 0"
  by (simp add: days_before_month_def DAYS_BEFORE_MONTH_def)

lemma days_before_month_12: "days_before_month y 12 + 31 = (if is_leap y then 366 else 365)"
  by (simp add: days_before_month_def DAYS_BEFORE_MONTH_def)

lemma days_in_month_pos: "1 \<le> days_in_month y m"
  by (simp add: days_in_month_def)

lemma days_in_month_12: "days_in_month y 12 = 31"
  by (simp add: days_in_month_def)

lemma next_day_ordinal:
  assumes v: "valid_datetime t" and n: "next_day t = Inr t'"
  shows "toordinal t' = toordinal t + 1 \<and> valid_datetime t' \<and>
         hour t' = hour t \<and> minute t' = minute t \<and> second t' = second t"
proof -
  consider (same) "day t < days_in_month (year t) (month t)"
    | (month) "\<not> day t < days_in_month (year t) (month t)" "month t < 12"
    | (year) "\<not> day t < days_in_month (year t) (month t)" "\<not> month t < 12" "year t < MAXYEAR"
    using n by (auto simp: next_day_def split: if_splits)
  then show ?thesis
  proof cases
    case same
    then have "t' = t\<lparr>day := day t + 1\<rparr>" using n by (simp add: next_day_def)
    then show ?thesis using v same
      by (simp add: toordinal_def valid_datetime_def valid_date_def)
  next
    case month
    then have t': "t' = t\<lparr>month := month t + 1, day := 1\<rparr>" using n by (simp add: next_day_def)
    have d: "day t = days_in_month (year t) (month t)"
      using v month by (simp add: valid_datetime_def valid_date_def)
    have m: "1 \<le> month t" using v by (simp add: valid_datetime_def valid_date_def)
    show ?thesis using v month t' d days_before_month_Suc [OF m month(2), of "year t"]
      by (simp add: toordinal_def valid_datetime_def valid_date_def days_in_month_pos)
  next
    case year
    then have t': "t' = t\<lparr>year := year t + 1, month := 1, day := 1\<rparr>"
      using n by (simp add: next_day_def)
    have m: "month t = 12" using v year by (simp add: valid_datetime_def valid_date_def)
    have d: "day t = 31"
      using v year m by (simp add: valid_datetime_def valid_date_def days_in_month_12)
    show ?thesis using v year t' m d days_before_year_Suc [of "year t"] days_before_month_12 [of "year t"]
      by (simp add: toordinal_def valid_datetime_def valid_date_def days_before_month_1
                    days_in_month_def MAXYEAR_def MINYEAR_def)
  qed
qed

lemma next_day_defined:
  "next_day t = Inl e \<Longrightarrow> valid_datetime t \<Longrightarrow> e = OverflowError \<and> year t = 9999 \<and> month t = 12 \<and> day t = 31"
  by (auto simp: next_day_def valid_datetime_def valid_date_def MAXYEAR_def days_in_month_12 split: if_splits)

lemma add_days_ordinal:
  "valid_datetime t \<Longrightarrow> add_days t n = Inr t' \<Longrightarrow>
   toordinal t' = toordinal t + int n \<and> valid_datetime t' \<and>
   hour t' = hour t \<and> minute t' = minute t \<and> second t' = second t"
proof (induction n arbitrary: t)
  case 0
  then show ?case by simp
next
  case (Suc n)
  from Suc.prems(2) obtain u where u: "next_day t = Inr u" and r: "add_days u n = Inr t'"
    by (auto split: sum.splits)
  from next_day_ordinal [OF Suc.prems(1) u] Suc.IH [OF _ r] show ?case by simp
qed

lemma datetime_add_seconds:
  assumes v: "valid_datetime t" and a: "datetime_add t delta = Inr t'"
  shows "total_seconds t' = total_seconds t + int (days delta) * 86400 + int (seconds delta)"
    and "valid_datetime t'"
proof -
  define s where "s = hour t * 3600 + minute t * 60 + second t + seconds delta"
  define r where "r = s mod 86400"
  define u where "u = t\<lparr>hour := r div 3600, minute := r mod 3600 div 60, second := r mod 60\<rparr>"
  have a': "add_days u (days delta + s div 86400) = Inr t'"
    using a by (simp add: datetime_add_def Let_def s_def r_def u_def)
  have "r < 86400" by (simp add: r_def)
  then have "r div 3600 < 24" by simp 
  then have vu: "valid_datetime u" using v by (simp add: valid_datetime_def u_def)
  have ou: "toordinal u = toordinal t" by (simp add: toordinal_def u_def)
  define hh where "hh = r div 3600"
  define mm where "mm = r mod 3600 div 60"
  define ss where "ss = r mod 60"
  define q where "q = s div 86400"
  have s1: "hh * 3600 + r mod 3600 = r" unfolding hh_def by simp
  have s2: "mm * 60 + r mod 3600 mod 60 = r mod 3600" unfolding mm_def by simp
  have s3: "r mod 3600 mod 60 = ss" unfolding ss_def by (simp add: mod_mod_cancel)
  have split: "hh * 3600 + mm * 60 + ss = r"
    using s1 s2 unfolding s3 by simp
  have sq: "s = q * 86400 + r" unfolding r_def q_def by simp
  from add_days_ordinal [OF vu a'] ou have
    o: "toordinal t' = toordinal t + int (days delta) + int q" and vt: "valid_datetime t'"
    and h: "hour t' = hh" and m: "minute t' = mm" and sec: "second t' = ss"
    by (simp_all add: u_def hh_def mm_def ss_def q_def)
  show "valid_datetime t'" by (rule vt)
  have "int (hour t') * 3600 + int (minute t') * 60 + int (second t') = int (hh * 3600 + mm * 60 + ss)"
    unfolding h m sec by simp
  then have c: "int (hour t') * 3600 + int (minute t') * 60 + int (second t') = int r"
    by (simp only: split)
  have "int (hour t) * 3600 + int (minute t) * 60 + int (second t) + int (seconds delta) = int s"
    unfolding s_def by simp
  also have "\<dots> = int q * 86400 + int r" by (subst sq) simp
  finally have e: "int (hour t) * 3600 + int (minute t) * 60 + int (second t) + int (seconds delta) =
      int q * 86400 + int r" .
  show "total_seconds t' = total_seconds t + int (days delta) * 86400 + int (seconds delta)"
    unfolding total_seconds_def o using c e by (simp add: algebra_simps)
qed

lemma add_clock_same_day:
  "datetime_add (combine d 0 0) (timedelta_new 0 23 59) = Inr (combine d 23 59)"
  by (simp add: datetime_add_def timedelta_new_def combine_def)

lemma add_one_day:
  assumes "h < 24" "mi < 60"
  shows "datetime_add (combine d h mi) (timedelta_new 1 0 0) = next_day (combine d h mi)"
proof -
  have "h * 3600 + mi * 60 < 86400" using assms by simp
  moreover have "(h * 3600 + mi * 60) div 3600 = h" using assms by simp
  moreover have "(h * 3600 + mi * 60) mod 3600 div 60 = mi" using assms by simp
  moreover have "(h * 3600 + mi * 60) mod 60 = 0" by simp
  ultimately show ?thesis
    by (simp add: datetime_add_def timedelta_new_def combine_def split: sum.splits)
qed

section \<open>Properties of the Time Interpreter\<close>

lemma digit_val_le: "is_digit c \<Longrightarrow> digit_val c \<le> 9"
  by (auto simp: is_digit_def one_of_def digit_val_def)

lemma digit_val_1_9: "one_of ''123456789'' c \<Longrightarrow> 1 \<le> digit_val c \<and> digit_val c \<le> 9"
  by (auto simp: one_of_def digit_val_def)

lemma digit_val_0_2: "one_of ''012'' c \<Longrightarrow> digit_val c \<le> 2"
  by (auto simp: one_of_def digit_val_def)

lemma digit_val_0_5: "one_of ''012345'' c \<Longrightarrow> digit_val c \<le> 5"
  by (auto simp: one_of_def digit_val_def)

lemma digit_val_0: "digit_val CHR ''0'' = 0"
  by (simp add: digit_val_def)

lemma digit_val_1: "digit_val CHR ''1'' = 1"
  by (simp add: digit_val_def)

lemma strptime_I_range:
  assumes "strptime_I s = Some (h, r)"
  shows "1 \<le> h \<and> h \<le> 12"
proof (cases s)
  case Nil
  then show ?thesis using assms by (simp add: strptime_I_def)
next
  case (Cons a s')
  show ?thesis
  proof (cases s')
    case Nil
    then show ?thesis using assms Cons by (simp add: strptime_I_def)
  next
    case (Cons b s'')
    consider (one) "one_of ''123456789'' a" "b = CHR '':''" "h = digit_val a"
      | (ten) "a = CHR ''1''" "one_of ''012'' b" "h = 10 * digit_val a + digit_val b"
      | (zero) "a = CHR ''0''" "one_of ''123456789'' b" "h = 10 * digit_val a + digit_val b"
      using assms \<open>s = a # s'\<close> Cons
      by (simp add: strptime_I_def split: if_splits list.splits) blast
    then show ?thesis
    proof cases
      case one
      then show ?thesis using digit_val_1_9 [of a] by simp
    next
      case ten
      then show ?thesis using digit_val_0_2 [of b] by (simp add: digit_val_1)
    next
      case zero
      then show ?thesis using digit_val_1_9 [of b] by (simp add: digit_val_0)
    qed
  qed
qed

lemma strptime_M_range:
  assumes "strptime_M s = Some (mi, r)"
  shows "mi \<le> 59"
proof -
  consider (one) a where "is_digit a" "mi = digit_val a"
    | (two) a b where "one_of ''012345'' a" "is_digit b" "mi = 10 * digit_val a + digit_val b"
    using assms by (auto simp: strptime_M_def split: list.splits if_splits)
  then show ?thesis
  proof cases
    case one
    then show ?thesis using digit_val_le [of a] by simp
  next
    case two
    then show ?thesis using digit_val_0_5 [of a] digit_val_le [of b] by simp
  qed
qed

lemma strptime_range:
  assumes "strptime s = Inr (h, mi)"
  shows "h < 24 \<and> mi < 60"
proof -
  from assms obtain i r1 r2 where i: "strptime_I s = Some (i, r1)"
    and m: "strptime_M r1 = Some (mi, r2)"
    and h: "h = i + 12 \<and> i \<noteq> 12 \<or> h = i \<or> h = 0"
    by (auto simp: strptime_def split: option.splits if_splits)
  from strptime_I_range [OF i] strptime_M_range [OF m] h show ?thesis by auto
qed

lemma to_hm_range: "to_hm s = Inr (h, mi) \<Longrightarrow> h < 24 \<and> mi < 60"
  unfolding to_hm_def by (rule strptime_range)

lemma no_match_all_day:
  "TIME_RANGE_RE text = None \<Longrightarrow>
   parse_time_range text d = Inr (combine d 0 0, combine d 23 59)"
  by (simp add: parse_time_range_def add_clock_same_day)

lemma cmp_combine:
  "cmp (combine d h1 m1) (combine d h2 m2) =
     (if h1 < h2 then -1 else if h2 < h1 then 1 else if m1 < m2 then -1 else if m2 < m1 then 1 else 0)"
  by (simp add: cmp_def getstate_def combine_def)

lemma datetime_le_combine:
  "datetime_le (combine d h1 m1) (combine d h2 m2) = (h1 * 60 + m1 \<le> h2 * 60 + m2)"
  if "m1 < 60" "m2 < 60"
  using that by (auto simp: datetime_le_def cmp_combine)

lemma datetime_lt_combine:
  "datetime_lt (combine d h1 m1) (combine d h2 m2) = (h1 * 60 + m1 < h2 * 60 + m2)"
  if "m1 < 60" "m2 < 60"
  using that by (auto simp: datetime_lt_def cmp_combine)

lemma next_day_later:
  assumes "next_day t = Inr t'" "year u = year t" "month u = month t" "day u = day t"
  shows "datetime_lt u t'"
proof -
  consider "t' = t\<lparr>day := day t + 1\<rparr>" | "t' = t\<lparr>month := month t + 1, day := 1\<rparr>"
    | "t' = t\<lparr>year := year t + 1, month := 1, day := 1\<rparr>"
    using assms(1) by (auto simp: next_day_def split: if_splits)
  then show ?thesis
    using assms(2-) by cases (simp_all add: datetime_lt_def cmp_def getstate_def)
qed

lemma parse_time_range_match:
  assumes "TIME_RANGE_RE text = Some (g1, g2)" "to_hm g1 = Inr (sh, sm)" "to_hm g2 = Inr (eh, em)"
  shows "parse_time_range text d =
          (if eh * 60 + em \<le> sh * 60 + sm
           then (case next_day (combine d eh em) of
                   Inl e \<Rightarrow> Inl e | Inr e \<Rightarrow> Inr (combine d sh sm, e))
           else Inr (combine d sh sm, combine d eh em))"
proof -
  from to_hm_range [OF assms(2)] to_hm_range [OF assms(3)]
  have r: "sh < 24" "sm < 60" "eh < 24" "em < 60" by simp_all
  show ?thesis
    by (simp add: parse_time_range_def assms Let_def datetime_le_combine r
                  add_one_day [unfolded One_nat_def])
qed

lemma parse_time_range_ordered:
  assumes "parse_time_range text d = Inr (s, e)"
  shows "datetime_lt s e"
proof (cases "TIME_RANGE_RE text")
  case None
  from no_match_all_day [OF None, of d] assms
  have "s = combine d 0 0" "e = combine d 23 59" by simp_all
  then show ?thesis by (simp add: datetime_lt_combine)
next
  case (Some g)
  obtain g1 g2 where g: "g = (g1, g2)" by (cases g)
  from assms Some g obtain sh sm eh em
    where s: "to_hm g1 = Inr (sh, sm)" and e: "to_hm g2 = Inr (eh, em)"
    by (auto simp: parse_time_range_def split: sum.splits)
  from to_hm_range [OF s] to_hm_range [OF e]
  have r: "sh < 24" "sm < 60" "eh < 24" "em < 60" by simp_all
  note m = parse_time_range_match [OF Some [unfolded g] s e, of d]
  show ?thesis
  proof (cases "eh * 60 + em \<le> sh * 60 + sm")
    case True
    with m assms obtain e' where n: "next_day (combine d eh em) = Inr e'"
      and "s = combine d sh sm" "e = e'"
      by (auto split: sum.splits)
    with next_day_later [OF n, of s] show ?thesis by (simp add: combine_def)
  next
    case False
    with m assms have "s = combine d sh sm" "e = combine d eh em" by simp_all
    with False r show ?thesis by (simp add: datetime_lt_combine)
  qed
qed

lemma total_seconds_all_day:
  "total_seconds (combine d 23 59) = total_seconds (combine d 0 0) + 86340"
  by (simp add: total_seconds_def toordinal_def combine_def)

lemmas matcher_defs =
  TIME_RANGE_RE_def clock_def hour_colon_def two_digits_def meridiem_def skip_space_def
  is_space_def is_digit_def one_of_def

lemmas strptime_defs =
  to_hm_def strptime_def strptime_I_def strptime_M_def strptime_p_def upper_def upper_char_def
  replace_def digit_val_def is_digit_def one_of_def

lemma match_rollover_text:
  "TIME_RANGE_RE ''11:30 PM - 12:30 AM'' = Some (''11:30 PM'', ''12:30 AM'')"
  by (simp add: matcher_defs)

lemma match_evening_text:
  "TIME_RANGE_RE ''6:00 PM - 7:00 PM'' = Some (''6:00 PM'', ''7:00 PM'')"
  by (simp add: matcher_defs)

lemma no_match_examples:
  "TIME_RANGE_RE '''' = None" "TIME_RANGE_RE ''6:00 PM'' = None" "TIME_RANGE_RE ''all day'' = None"
  by (simp_all add: matcher_defs)

lemma to_hm_examples:
  "to_hm ''11:30 PM'' = Inr (23, 30)" "to_hm ''12:30 AM'' = Inr (0, 30)"
  "to_hm ''6:00 PM'' = Inr (18, 0)" "to_hm ''7:00 PM'' = Inr (19, 0)"
  by (simp_all add: strptime_defs)

lemma valid_datetime_combine:
  "valid_date (year d) (month d) (day d) \<Longrightarrow> h < 24 \<Longrightarrow> mi < 60 \<Longrightarrow> valid_datetime (combine d h mi)"
  by (simp add: valid_datetime_def combine_def)

subsection \<open>Text that does not match: the all-day fallback\<close>

text \<open>
  Claim C2. For every text that \<open>TIME_RANGE_RE\<close> does not match and every base date,
  \<open>parse_time_range\<close> raises nothing and returns the start 00:00:00 and the end 23:59:00
  of the base date, which is the start plus 23 hours and 59 minutes. The empty text, a
  single time without a range and free text are such texts.
\<close>

theorem no_match_is_all_day:
  "(\<forall>text d. TIME_RANGE_RE text = None \<longrightarrow>
      parse_time_range text d =
        Inr (\<lparr>year = year d, month = month d, day = day d, hour = 0, minute = 0, second = 0\<rparr>,
             \<lparr>year = year d, month = month d, day = day d, hour = 23, minute = 59, second = 0\<rparr>) \<and>
      total_seconds (combine d 23 59) = total_seconds (combine d 0 0) + (23 * 3600 + 59 * 60))
   \<and> TIME_RANGE_RE '''' = None \<and> TIME_RANGE_RE ''6:00 PM'' = None
   \<and> TIME_RANGE_RE ''all day'' = None"
  using no_match_all_day total_seconds_all_day no_match_examples
  by (simp add: combine_def)

text \<open>The fallback at the empty text, on 2025-10-15.\<close>

theorem no_match_is_all_day_witness:
  "TIME_RANGE_RE '''' = None \<and>
   parse_time_range '''' \<lparr>year = 2025, month = 10, day = 15\<rparr> =
     Inr (\<lparr>year = 2025, month = 10, day = 15, hour = 0, minute = 0, second = 0\<rparr>,
          \<lparr>year = 2025, month = 10, day = 15, hour = 23, minute = 59, second = 0\<rparr>)"
  using no_match_is_all_day [THEN conjunct1, rule_format, of "''''" "\<lparr>year = 2025, month = 10, day = 15\<rparr>"]
  by (simp add: no_match_examples)

subsection \<open>A range that crosses midnight\<close>

text \<open>
  Claim C3, amended. For every text that \<open>TIME_RANGE_RE\<close> matches and whose two clock
  times \<open>strptime\<close> reads, and every base date before 9999-12-31: when the end clock
  time is not later than the start clock time, the end returned is the end clock time
  24 hours later (on the next calendar day), and the start is the start clock time on the
  base date. On 2025-10-15 the text \<open>11:30 PM - 12:30 AM\<close> gives 2025-10-15T23:30:00 and
  2025-10-16T00:30:00, and \<open>6:00 PM - 7:00 PM\<close> gives 2025-10-15T18:00:00 and
  2025-10-15T19:00:00.
\<close>

theorem rollover_adds_a_day:
  "(\<forall>text d g1 g2 sh sm eh em.
      TIME_RANGE_RE text = Some (g1, g2) \<longrightarrow> to_hm g1 = Inr (sh, sm) \<longrightarrow> to_hm g2 = Inr (eh, em) \<longrightarrow>
      eh * 60 + em \<le> sh * 60 + sm \<longrightarrow>
      valid_date (year d) (month d) (day d) \<longrightarrow>
      \<not> (year d = 9999 \<and> month d = 12 \<and> day d = 31) \<longrightarrow>
      (\<exists>e. parse_time_range text d = Inr (combine d sh sm, e) \<and>
           hour e = eh \<and> minute e = em \<and> second e = 0 \<and> valid_datetime e \<and>
           total_seconds e = total_seconds (combine d eh em) + 24 * 3600))
   \<and> parse_time_range ''11:30 PM - 12:30 AM'' \<lparr>year = 2025, month = 10, day = 15\<rparr> =
        Inr (\<lparr>year = 2025, month = 10, day = 15, hour = 23, minute = 30, second = 0\<rparr>,
             \<lparr>year = 2025, month = 10, day = 16, hour = 0, minute = 30, second = 0\<rparr>)
   \<and> parse_time_range ''6:00 PM - 7:00 PM'' \<lparr>year = 2025, month = 10, day = 15\<rparr> =
        Inr (\<lparr>year = 2025, month = 10, day = 15, hour = 18, minute = 0, second = 0\<rparr>,
             \<lparr>year = 2025, month = 10, day = 15, hour = 19, minute = 0, second = 0\<rparr>)"
proof (intro conjI allI impI)
  fix inp and d :: date and g1 g2 sh sm eh em
  assume m: "TIME_RANGE_RE inp = Some (g1, g2)" and s: "to_hm g1 = Inr (sh, sm)"
    and e: "to_hm g2 = Inr (eh, em)" and le: "eh * 60 + em \<le> sh * 60 + sm"
    and v: "valid_date (year d) (month d) (day d)"
    and last: "\<not> (year d = 9999 \<and> month d = 12 \<and> day d = 31)"
  from to_hm_range [OF e] have r: "eh < 24" "em < 60" by simp_all
  have ve: "valid_datetime (combine d eh em)" using v r by (rule valid_datetime_combine)
  obtain e' where n: "next_day (combine d eh em) = Inr e'"
  proof (cases "next_day (combine d eh em)")
    case (Inl x)
    from next_day_defined [OF Inl ve] last show ?thesis by (simp add: combine_def)
  next
    case (Inr e')
    then show ?thesis by (rule that)
  qed
  from next_day_ordinal [OF ve n]
  have "toordinal e' = toordinal (combine d eh em) + 1" "valid_datetime e'"
    "hour e' = eh" "minute e' = em" "second e' = 0"
    by (simp_all add: combine_def)
  moreover from this have "total_seconds e' = total_seconds (combine d eh em) + 24 * 3600"
    by (simp add: total_seconds_def combine_def)
  moreover have "parse_time_range inp d = Inr (combine d sh sm, e')"
    using parse_time_range_match [OF m s e, of d] le n by simp
  ultimately show "\<exists>e. parse_time_range inp d = Inr (combine d sh sm, e) \<and>
           hour e = eh \<and> minute e = em \<and> second e = 0 \<and> valid_datetime e \<and>
           total_seconds e = total_seconds (combine d eh em) + 24 * 3600"
    by blast
next
  show "parse_time_range ''11:30 PM - 12:30 AM'' \<lparr>year = 2025, month = 10, day = 15\<rparr> =
        Inr (\<lparr>year = 2025, month = 10, day = 15, hour = 23, minute = 30, second = 0\<rparr>,
             \<lparr>year = 2025, month = 10, day = 16, hour = 0, minute = 30, second = 0\<rparr>)"
    using parse_time_range_match [OF match_rollover_text to_hm_examples(1) to_hm_examples(2)]
    by (simp add: combine_def next_day_def days_in_month_def)
next
  show "parse_time_range ''6:00 PM - 7:00 PM'' \<lparr>year = 2025, month = 10, day = 15\<rparr> =
        Inr (\<lparr>year = 2025, month = 10, day = 15, hour = 18, minute = 0, second = 0\<rparr>,
             \<lparr>year = 2025, month = 10, day = 15, hour = 19, minute = 0, second = 0\<rparr>)"
    using parse_time_range_match [OF match_evening_text to_hm_examples(3) to_hm_examples(4)]
    by (simp add: combine_def)
qed

text \<open>The hypotheses of the amended claim hold for \<open>11:30 PM - 12:30 AM\<close> on 2025-10-15.\<close>

theorem rollover_adds_a_day_witness:
  "TIME_RANGE_RE ''11:30 PM - 12:30 AM'' = Some (''11:30 PM'', ''12:30 AM'') \<and>
   to_hm ''11:30 PM'' = Inr (23, 30) \<and> to_hm ''12:30 AM'' = Inr (0, 30) \<and>
   (0::nat) * 60 + 30 \<le> 23 * 60 + 30 \<and> valid_date 2025 10 15 \<and>
   (\<exists>e. parse_time_range ''11:30 PM - 12:30 AM'' \<lparr>year = 2025, month = 10, day = 15\<rparr> =
          Inr (combine \<lparr>year = 2025, month = 10, day = 15\<rparr> 23 30, e) \<and>
        hour e = 0 \<and> minute e = 30 \<and> second e = 0 \<and> valid_datetime e \<and>
        total_seconds e = total_seconds (combine \<lparr>year = 2025, month = 10, day = 15\<rparr> 0 30) + 24 * 3600)"
proof -
  have v: "valid_date 2025 10 15"
    by (simp add: valid_date_def MINYEAR_def MAXYEAR_def days_in_month_def)
  show ?thesis
    using rollover_adds_a_day [THEN conjunct1, rule_format,
        of "''11:30 PM - 12:30 AM''" "''11:30 PM''" "''12:30 AM''" 23 30 0 30
           "\<lparr>year = 2025, month = 10, day = 15\<rparr>"]
      match_rollover_text to_hm_examples(1,2) v
    by simp
qed

text \<open>
  Claim C3 as stated fails on the last date: on 9999-12-31 the same text matches, its end
  clock time 00:30 is not later than its start 23:30, and adding the day raises
  OverflowError, so no end timestamp is returned.
\<close>

theorem rollover_overflow_counterexample:
  "TIME_RANGE_RE ''11:30 PM - 12:30 AM'' = Some (''11:30 PM'', ''12:30 AM'') \<and>
   to_hm ''11:30 PM'' = Inr (23, 30) \<and> to_hm ''12:30 AM'' = Inr (0, 30) \<and>
   valid_date 9999 12 31 \<and>
   parse_time_range ''11:30 PM - 12:30 AM'' \<lparr>year = 9999, month = 12, day = 31\<rparr> = Inl OverflowError"
proof -
  have "valid_date 9999 12 31"
    by (simp add: valid_date_def MINYEAR_def MAXYEAR_def days_in_month_def)
  moreover have "parse_time_range ''11:30 PM - 12:30 AM'' \<lparr>year = 9999, month = 12, day = 31\<rparr> =
      Inl OverflowError"
    using parse_time_range_match [OF match_rollover_text to_hm_examples(1) to_hm_examples(2)]
    by (simp add: combine_def next_day_def days_in_month_def MAXYEAR_def)
  ultimately show ?thesis
    by (simp add: match_rollover_text to_hm_examples)
qed

section \<open>Properties of the Feed Serializer\<close>

lemma replace_Nil: "replace old new [] = []"
  by (simp add: replace_def)

lemma replace_Cons:
  "replace old new (c # s) = (if c = old then new else [c]) @ replace old new s"
  by (simp add: replace_def)

lemma replace_append: "replace old new (s @ t) = replace old new s @ replace old new t"
  by (simp add: replace_def)

lemma ics_escape_Nil: "ics_escape [] = []"
  by (simp add: ics_escape_def replace_Nil)

lemma ics_escape_Cons:
  "ics_escape (c # s) =
     (if c = BACKSLASH \<or> c = CHR '';'' \<or> c = CHR '','' then [BACKSLASH, c] else [c]) @ ics_escape s"
  by (simp add: ics_escape_def replace_Cons replace_append replace_Nil BACKSLASH_def)

lemma ics_escape_one_pass:
  "ics_escape s =
     concat (map (\<lambda>c. if c = BACKSLASH \<or> c = CHR '';'' \<or> c = CHR '','' then [BACKSLASH, c] else [c]) s)"
  by (induction s) (simp_all add: ics_escape_Nil ics_escape_Cons)

subsection \<open>Escaping\<close>

text \<open>
  Claim C5. \<open>ics_escape\<close> replaces the backslash first, then the semicolon, then the
  comma, and no character that a replacement puts in is escaped again: the result is the
  text with every backslash, semicolon and comma preceded by one backslash and every other
  character unchanged. For the title \<open>A, B; C\D\<close> it is \<open>A\, B\; C\\D\<close>. With the backslash
  replaced last instead, a semicolon would come out with two backslashes.
\<close>

theorem escape_each_once:
  "(\<forall>s. ics_escape s =
         concat (map (\<lambda>c. if c = BACKSLASH \<or> c = CHR '';'' \<or> c = CHR '','' then [BACKSLASH, c] else [c]) s))
   \<and> ics_escape (''A, B; C'' @ [BACKSLASH] @ ''D'') =
       ''A'' @ [BACKSLASH] @ '', B'' @ [BACKSLASH] @ ''; C'' @ [BACKSLASH, BACKSLASH] @ ''D''
   \<and> ics_escape '';'' = [BACKSLASH, CHR '';'']
   \<and> replace BACKSLASH [BACKSLASH, BACKSLASH] (replace CHR '';'' [BACKSLASH, CHR '';''] '';'') =
       [BACKSLASH, BACKSLASH, CHR '';'']"
proof (intro conjI allI)
  fix s
  show "ics_escape s =
      concat (map (\<lambda>c. if c = BACKSLASH \<or> c = CHR '';'' \<or> c = CHR '','' then [BACKSLASH, c] else [c]) s)"
    by (rule ics_escape_one_pass)
next
  show "ics_escape (''A, B; C'' @ [BACKSLASH] @ ''D'') =
       ''A'' @ [BACKSLASH] @ '', B'' @ [BACKSLASH] @ ''; C'' @ [BACKSLASH, BACKSLASH] @ ''D''"
    by (simp add: ics_escape_Cons ics_escape_Nil BACKSLASH_def)
next
  show "ics_escape '';'' = [BACKSLASH, CHR '';'']"
    by (simp add: ics_escape_Cons ics_escape_Nil)
next
  show "replace BACKSLASH [BACKSLASH, BACKSLASH] (replace CHR '';'' [BACKSLASH, CHR '';''] '';'') =
       [BACKSLASH, BACKSLASH, CHR '';'']"
    by (simp add: replace_Cons replace_Nil BACKSLASH_def)
qed

lemma lines_acc_line:
  "LF \<notin> set l \<Longrightarrow> lines_acc (l @ LF # r) w = (rev w @ l) # lines_acc r []"
  by (induction l arbitrary: w) auto

lemma lines_acc_append:
  "lines_acc (a @ [LF] @ b) w = lines_acc (a @ [LF]) w @ lines_acc b []"
  by (induction a arbitrary: w) simp_all

lemma text_lines_line: "LF \<notin> set l \<Longrightarrow> text_lines (l @ [LF]) = [l]"
  using lines_acc_line [of l "[]" "[]"] by (simp add: text_lines_def)

lemma text_lines_append:
  "text_lines ((a @ [LF]) @ b) = text_lines (a @ [LF]) @ text_lines b"
  using lines_acc_append [of a b "[]"] by (simp add: text_lines_def)

lemma text_lines_Nil: "text_lines [] = []"
  by (simp add: text_lines_def)

lemma join_terminated:
  "ls \<noteq> [] \<Longrightarrow> join [LF] ls @ [LF] = concat (map (\<lambda>l. l @ [LF]) ls)"
  by (induction "[LF]" ls rule: join.induct) simp_all

lemma text_lines_concat:
  "text_lines (concat (map (\<lambda>l. l @ [LF]) ls)) = concat (map (\<lambda>l. text_lines (l @ [LF])) ls)"
proof (induction ls)
  case Nil
  then show ?case by (simp add: text_lines_Nil)
next
  case (Cons l ls)
  have "text_lines (concat (map (\<lambda>l. l @ [LF]) (l # ls))) =
        text_lines ((l @ [LF]) @ concat (map (\<lambda>l. l @ [LF]) ls))" by simp
  also have "\<dots> = text_lines (l @ [LF]) @ text_lines (concat (map (\<lambda>l. l @ [LF]) ls))"
    by (rule text_lines_append)
  finally show ?case by (simp add: Cons.IH)
qed

lemma text_lines_join:
  assumes "ls \<noteq> []"
  shows "text_lines (join [LF] ls @ [LF]) = concat (map (\<lambda>l. text_lines (l @ [LF])) ls)"
  by (simp only: join_terminated [OF assms] text_lines_concat)

lemma text_lines_join_clean:
  assumes "ls \<noteq> []" "\<forall>l \<in> set ls. LF \<notin> set l"
  shows "text_lines (join [LF] ls @ [LF]) = ls"
proof -
  have "concat (map (\<lambda>l. text_lines (l @ [LF])) ls) = concat (map (\<lambda>l. [l]) ls)"
    using assms(2) by (intro arg_cong [where f = concat] map_cong) (simp_all add: text_lines_line)
  also have "\<dots> = ls" by (induction ls) simp_all
  finally show ?thesis by (simp only: text_lines_join [OF assms(1)])
qed

lemma event_loop_append:
  "event_loop now tzid lines evs = lines @ concat (map (vevent now tzid) evs)"
  by (induction evs arbitrary: lines) simp_all

lemma build_ics_lines:
  "build_ics utcnow events tzid cal_name =
     join [LF] (header_lines cal_name @ concat (map (vevent (strftime utcnow @ ''Z'') tzid) events)
                @ [''END:VCALENDAR'']) @ [LF]"
  by (simp add: build_ics_def Let_def event_loop_append header_lines_def)

lemma digit_char_digit: "digit_char n \<in> set ''0123456789''"
proof -
  have "n mod 10 < length ''0123456789''" by simp
  then show ?thesis unfolding digit_char_def by (rule nth_mem)
qed

lemma dec_digits: "set (dec n) \<subseteq> set ''0123456789''"
proof (induction n rule: dec.induct)
  case (1 n)
  show ?case
  proof (cases "n < 10")
    case True
    then show ?thesis using digit_char_digit [of n] by (subst dec.simps) simp
  next
    case False
    from digit_char_digit [of "n mod 10"] "1.IH" [OF False] False show ?thesis
      by (subst dec.simps) simp
  qed
qed

lemma zfill_digits: "set s \<subseteq> set ''0123456789'' \<Longrightarrow> set (zfill w s) \<subseteq> set ''0123456789''"
  by (auto simp: zfill_def)

lemma zfill_dec_digits: "set (zfill w (dec n)) \<subseteq> set ''0123456789''"
  by (rule zfill_digits) (rule dec_digits)

lemma no_LF_digits: "set s \<subseteq> set ''0123456789'' \<Longrightarrow> LF \<notin> set s"
  by (auto simp: LF_def)

lemma strftime_no_LF: "LF \<notin> set (strftime t)"
  by (simp add: strftime_def no_LF_digits [OF dec_digits] no_LF_digits [OF zfill_dec_digits])
     (simp add: LF_def)

lemma hex_char_hex: "hex_char n \<in> set ''0123456789abcdef''"
proof -
  have "n mod 16 < length ''0123456789abcdef''" by simp
  then show ?thesis unfolding hex_char_def by (rule nth_mem)
qed

lemma hex_word_hex: "set (hex_word w) \<subseteq> set ''0123456789abcdef''"
  using hex_char_hex by (auto simp: hex_word_def simp del: set_simps)

lemma hexdigest_hex: "set (hexdigest h) \<subseteq> set ''0123456789abcdef''"
  using hex_word_hex by (cases h) (simp add: hexdigest_def del: set_simps)

lemma make_uid_no_LF: "LF \<notin> set (make_uid title s e)"
proof -
  have "LF \<notin> set ''0123456789abcdef''" by (simp add: LF_def)
  with hexdigest_hex have "LF \<notin> set (hexdigest h)" for h by blast
  then show ?thesis by (simp add: make_uid_def) (simp add: LF_def)
qed

lemma ics_escape_set: "set (ics_escape s) \<subseteq> insert BACKSLASH (set s)"
  by (induction s) (auto simp: ics_escape_Nil ics_escape_Cons)

lemma ics_escape_no_LF: "LF \<notin> set s \<Longrightarrow> LF \<notin> set (ics_escape s)"
  using ics_escape_set [of s] by (auto simp: LF_def BACKSLASH_def)

lemma ics_dt_no_LF:
  assumes "\<And>z. tzid = Some z \<Longrightarrow> LF \<notin> set z"
  shows "LF \<notin> set (ics_dt t tzid)"
proof -
  have c: "LF \<notin> set '';TZID=''" "LF \<notin> set '':''" by (simp_all add: LF_def)
  show ?thesis
  proof (cases tzid)
    case None
    then show ?thesis using c strftime_no_LF [of t] by (simp add: ics_dt_def truthy_def)
  next
    case (Some z)
    with assms have "LF \<notin> set z" by simp
    with Some c strftime_no_LF [of t] show ?thesis
      by (simp add: ics_dt_def truthy_def Let_def)
  qed
qed

lemma vevent_no_LF:
  assumes "LF \<notin> set now" "\<And>z. tzid = Some z \<Longrightarrow> LF \<notin> set z"
    and "LF \<notin> set (ev_title ev)" "\<And>u. ev_source ev = Some u \<Longrightarrow> LF \<notin> set u"
  shows "\<forall>l \<in> set (vevent now tzid ev). LF \<notin> set l"
proof -
  have c: "LF \<notin> set ''BEGIN:VEVENT''" "LF \<notin> set ''DTSTAMP:''" "LF \<notin> set ''UID:''"
    "LF \<notin> set ''SUMMARY:''" "LF \<notin> set ''DTSTART''" "LF \<notin> set ''DTEND''"
    "LF \<notin> set ''DESCRIPTION:''" "LF \<notin> set ''END:VEVENT''" "LF \<notin> set PLACEHOLDER"
    by (simp_all add: LF_def PLACEHOLDER_def)
  have t: "LF \<notin> set (ics_escape (if ev_title ev \<noteq> [] then ev_title ev else PLACEHOLDER))"
    using assms(3) c(9) by (simp add: ics_escape_no_LF)
  have s: "truthy (ev_source ev) \<Longrightarrow> LF \<notin> set (ics_escape (the (ev_source ev)))"
    using assms(4) by (cases "ev_source ev") (simp_all add: truthy_def ics_escape_no_LF)
  show ?thesis
    using c t s assms(1) ics_dt_no_LF [OF assms(2)] make_uid_no_LF
    by (simp add: vevent_def Let_def)
qed

lemma blocks_closed_vevent:
  "blocks_closed opened (vevent now tzid ev @ rest) = blocks_closed opened rest"
  by (simp add: vevent_def Let_def starts_with_def)

lemma blocks_closed_events:
  "blocks_closed opened (concat (map (vevent now tzid) evs) @ rest) = blocks_closed opened rest"
  by (induction evs) (simp_all add: blocks_closed_vevent)

lemma blocks_closed_document:
  "blocks_closed [] (header_lines cal_name @ concat (map (vevent now tzid) evs) @ [''END:VCALENDAR''])"
  by (simp add: header_lines_def starts_with_def blocks_closed_events)

lemma header_lines_no_LF:
  "LF \<notin> set cal_name \<Longrightarrow> \<forall>l \<in> set (header_lines cal_name). LF \<notin> set l"
  by (simp add: header_lines_def ics_escape_no_LF) (simp add: LF_def)

lemma vevent_brackets:
  "hd (vevent now tzid ev) = ''BEGIN:VEVENT'' \<and> last (vevent now tzid ev) = ''END:VEVENT''"
  by (simp add: vevent_def Let_def)

lemma build_ics_clean_lines:
  assumes "LF \<notin> set cal_name" "\<And>z. tzid = Some z \<Longrightarrow> LF \<notin> set z"
    and "\<And>ev. ev \<in> set events \<Longrightarrow> LF \<notin> set (ev_title ev)"
    and "\<And>ev u. ev \<in> set events \<Longrightarrow> ev_source ev = Some u \<Longrightarrow> LF \<notin> set u"
  shows "text_lines (build_ics utcnow events tzid cal_name) =
           header_lines cal_name @ concat (map (vevent (strftime utcnow @ ''Z'') tzid) events)
           @ [''END:VCALENDAR'']"
proof -
  define now where "now = strftime utcnow @ ''Z''"
  have n: "LF \<notin> set now" using strftime_no_LF [of utcnow] by (simp add: now_def) (simp add: LF_def)
  have "\<forall>l \<in> set (vevent now tzid ev). LF \<notin> set l" if "ev \<in> set events" for ev
    using n assms(2) assms(3) [OF that] assms(4) [OF that] by (rule vevent_no_LF)
  then have e: "\<forall>l \<in> set (concat (map (vevent now tzid) events)). LF \<notin> set l" by auto
  have f: "LF \<notin> set ''END:VCALENDAR''" by (simp add: LF_def)
  have "\<forall>l \<in> set (header_lines cal_name @ concat (map (vevent now tzid) events) @ [''END:VCALENDAR'']).
          LF \<notin> set l"
    using header_lines_no_LF [OF assms(1)] e f by auto
  moreover have "header_lines cal_name @ concat (map (vevent now tzid) events) @ [''END:VCALENDAR''] \<noteq> []"
    by simp
  ultimately show ?thesis
    unfolding build_ics_lines now_def [symmetric] by (rule text_lines_join_clean [rotated])
qed

subsection \<open>The document for no events, and block closure\<close>

text \<open>
  Claim C7, amended. For the empty event sequence \<open>build_ics\<close> returns exactly the five
  header lines (wrapper open, version, product identifier, calendar scale, display name)
  and the wrapper close, each ended by a line feed, with no event block. For every event
  sequence whose titles and source URLs, and whose display name and timezone label,
  hold no line feed, the lines of the document are the header lines, one block per event
  that opens with \<open>BEGIN:VEVENT\<close> and closes with \<open>END:VEVENT\<close>, and the wrapper close, so
  every opened block is closed.
\<close>

theorem document_complete:
  "(\<forall>utcnow tzid cal_name.
      build_ics utcnow [] tzid cal_name =
        ''BEGIN:VCALENDAR'' @ [LF] @ ''VERSION:2.0'' @ [LF] @ ''PRODID:-//MyVMK Scraper//EN'' @ [LF] @
        ''CALSCALE:GREGORIAN'' @ [LF] @ ''X-WR-CALNAME:'' @ ics_escape cal_name @ [LF] @
        ''END:VCALENDAR'' @ [LF])
   \<and> (\<forall>utcnow events tzid cal_name.
        LF \<notin> set cal_name \<longrightarrow> (\<forall>z. tzid = Some z \<longrightarrow> LF \<notin> set z) \<longrightarrow>
        (\<forall>ev \<in> set events. LF \<notin> set (ev_title ev) \<and> (\<forall>u. ev_source ev = Some u \<longrightarrow> LF \<notin> set u)) \<longrightarrow>
        text_lines (build_ics utcnow events tzid cal_name) =
          header_lines cal_name @ concat (map (vevent (strftime utcnow @ ''Z'') tzid) events)
          @ [''END:VCALENDAR''] \<and>
        (\<forall>ev \<in> set events.
           hd (vevent (strftime utcnow @ ''Z'') tzid ev) = ''BEGIN:VEVENT'' \<and>
           last (vevent (strftime utcnow @ ''Z'') tzid ev) = ''END:VEVENT'') \<and>
        blocks_closed [] (text_lines (build_ics utcnow events tzid cal_name)))"
proof (intro conjI allI impI)
  fix utcnow tzid cal_name
  show "build_ics utcnow [] tzid cal_name =
        ''BEGIN:VCALENDAR'' @ [LF] @ ''VERSION:2.0'' @ [LF] @ ''PRODID:-//MyVMK Scraper//EN'' @ [LF] @
        ''CALSCALE:GREGORIAN'' @ [LF] @ ''X-WR-CALNAME:'' @ ics_escape cal_name @ [LF] @
        ''END:VCALENDAR'' @ [LF]"
    by (simp add: build_ics_def Let_def)
next
  fix utcnow and events :: "event list" and tzid cal_name
  assume a: "LF \<notin> set cal_name" "\<forall>z. tzid = Some z \<longrightarrow> LF \<notin> set z"
    "\<forall>ev \<in> set events. LF \<notin> set (ev_title ev) \<and> (\<forall>u. ev_source ev = Some u \<longrightarrow> LF \<notin> set u)"
  have l: "text_lines (build_ics utcnow events tzid cal_name) =
          header_lines cal_name @ concat (map (vevent (strftime utcnow @ ''Z'') tzid) events)
          @ [''END:VCALENDAR'']"
    using a by (intro build_ics_clean_lines) auto
  show "text_lines (build_ics utcnow events tzid cal_name) =
          header_lines cal_name @ concat (map (vevent (strftime utcnow @ ''Z'') tzid) events)
          @ [''END:VCALENDAR'']"
    by (rule l)
  show "blocks_closed [] (text_lines (build_ics utcnow events tzid cal_name))"
    unfolding l by (rule blocks_closed_document)
  show "\<forall>ev \<in> set events.
           hd (vevent (strftime utcnow @ ''Z'') tzid ev) = ''BEGIN:VEVENT'' \<and>
           last (vevent (strftime utcnow @ ''Z'') tzid ev) = ''END:VEVENT''"
    by (simp add: vevent_brackets)
qed

text \<open>One event with plain text fields: the hypotheses hold and its block is closed.\<close>

theorem document_complete_witness:
  "LF \<notin> set ''MyVMK Events'' \<and> LF \<notin> set ''America/New_York'' \<and> LF \<notin> set ''Party'' \<and>
   LF \<notin> set ''https://download.myvmk.com/calendar.html'' \<and>
   blocks_closed []
     (text_lines
        (build_ics \<lparr>year = 2025, month = 10, day = 1, hour = 12, minute = 0, second = 0\<rparr>
           [\<lparr>ev_title = ''Party'',
             ev_start = \<lparr>year = 2025, month = 10, day = 15, hour = 18, minute = 0, second = 0\<rparr>,
             ev_end = \<lparr>year = 2025, month = 10, day = 15, hour = 19, minute = 0, second = 0\<rparr>,
             ev_source = Some ''https://download.myvmk.com/calendar.html''\<rparr>]
           (Some ''America/New_York'') ''MyVMK Events''))"
proof -
  have c: "LF \<notin> set ''MyVMK Events''" "LF \<notin> set ''America/New_York''" "LF \<notin> set ''Party''"
    "LF \<notin> set ''https://download.myvmk.com/calendar.html''"
    by (simp_all add: LF_def)
  define ev where "ev = \<lparr>ev_title = ''Party'',
             ev_start = \<lparr>year = 2025, month = 10, day = 15, hour = 18, minute = 0, second = 0\<rparr>,
             ev_end = \<lparr>year = 2025, month = 10, day = 15, hour = 19, minute = 0, second = 0\<rparr>,
             ev_source = Some ''https://download.myvmk.com/calendar.html''\<rparr>"
  have h2: "LF \<notin> set z" if "Some ''America/New_York'' = Some z" for z using c(2) that by auto
  have h3: "LF \<notin> set (ev_title x) \<and> (\<forall>u. ev_source x = Some u \<longrightarrow> LF \<notin> set u)"
    if "x \<in> set [ev]" for x
    using c that by (simp add: ev_def)
  note d = document_complete [THEN conjunct2, rule_format,
      where utcnow = "\<lparr>year = 2025, month = 10, day = 1, hour = 12, minute = 0, second = 0\<rparr>"
        and tzid = "Some ''America/New_York''" and events = "[ev]" and cal_name = "''MyVMK Events''",
      OF c(1) h2 h3]
  from d [THEN conjunct2, THEN conjunct2] c show ?thesis
    unfolding ev_def by blast
qed

text \<open>
  Claim C7 as stated fails for an event whose title holds a line feed: the text after it
  becomes a line of its own, here a second \<open>BEGIN:VEVENT\<close> that nothing closes.
\<close>

theorem document_complete_counterexample:
  "\<not> blocks_closed []
     (text_lines
        (build_ics \<lparr>year = 2025, month = 10, day = 1, hour = 12, minute = 0, second = 0\<rparr>
           [\<lparr>ev_title = ''x'' @ [LF] @ ''BEGIN:VEVENT'',
             ev_start = \<lparr>year = 2025, month = 10, day = 15, hour = 18, minute = 0, second = 0\<rparr>,
             ev_end = \<lparr>year = 2025, month = 10, day = 15, hour = 19, minute = 0, second = 0\<rparr>,
             ev_source = None\<rparr>]
           None ''MyVMK Events''))"
proof -
  define utcnow where "utcnow = \<lparr>year = 2025, month = 10, day = 1, hour = 12, minute = 0, second = 0\<rparr>"
  define s where "s = \<lparr>year = 2025, month = 10, day = 15, hour = 18, minute = 0, second = 0\<rparr>"
  define e where "e = \<lparr>year = 2025, month = 10, day = 15, hour = 19, minute = 0, second = 0\<rparr>"
  define title where "title = ''x'' @ [LF] @ ''BEGIN:VEVENT''"
  define now where "now = strftime utcnow @ ''Z''"
  have n: "LF \<notin> set now" using strftime_no_LF [of utcnow] by (simp add: now_def) (simp add: LF_def)
  have t1: "text_lines (l @ [LF]) = [l]" if "LF \<notin> set l" for l
    using that by (rule text_lines_line)
  have c: "LF \<notin> set ''DTSTAMP:''" "LF \<notin> set ''UID:''" "LF \<notin> set ''DTSTART''" "LF \<notin> set ''DTEND''"
    by (simp_all add: LF_def)
  have stamp: "text_lines ((''DTSTAMP:'' @ now) @ [LF]) = [''DTSTAMP:'' @ now]"
    using n c by (intro t1) simp
  have uid: "text_lines ((''UID:'' @ make_uid title s e) @ [LF]) = [''UID:'' @ make_uid title s e]"
    using make_uid_no_LF [of title s e] c by (intro t1) simp
  have ds: "text_lines ((''DTSTART'' @ ics_dt s None) @ [LF]) = [''DTSTART'' @ ics_dt s None]"
    using ics_dt_no_LF [of None s] c by (intro t1) simp
  have de: "text_lines ((''DTEND'' @ ics_dt e None) @ [LF]) = [''DTEND'' @ ics_dt e None]"
    using ics_dt_no_LF [of None e] c by (intro t1) simp
  have summary: "text_lines ((''SUMMARY:'' @ ics_escape title) @ [LF]) = [''SUMMARY:x'', ''BEGIN:VEVENT'']"
    by (simp add: title_def ics_escape_Cons ics_escape_Nil text_lines_def LF_def BACKSLASH_def)
  have fixed: "text_lines (''BEGIN:VCALENDAR'' @ [LF]) = [''BEGIN:VCALENDAR'']"
    "text_lines (''VERSION:2.0'' @ [LF]) = [''VERSION:2.0'']"
    "text_lines (''PRODID:-//MyVMK Scraper//EN'' @ [LF]) = [''PRODID:-//MyVMK Scraper//EN'']"
    "text_lines (''CALSCALE:GREGORIAN'' @ [LF]) = [''CALSCALE:GREGORIAN'']"
    "text_lines ((''X-WR-CALNAME:'' @ ics_escape ''MyVMK Events'') @ [LF]) = [''X-WR-CALNAME:MyVMK Events'']"
    "text_lines (''BEGIN:VEVENT'' @ [LF]) = [''BEGIN:VEVENT'']"
    "text_lines (''END:VEVENT'' @ [LF]) = [''END:VEVENT'']"
    "text_lines (''END:VCALENDAR'' @ [LF]) = [''END:VCALENDAR'']"
    by (simp_all add: ics_escape_Cons ics_escape_Nil text_lines_def LF_def BACKSLASH_def)
  have lines: "text_lines (build_ics utcnow
       [\<lparr>ev_title = title, ev_start = s, ev_end = e, ev_source = None\<rparr>] None ''MyVMK Events'') =
     [''BEGIN:VCALENDAR'', ''VERSION:2.0'', ''PRODID:-//MyVMK Scraper//EN'', ''CALSCALE:GREGORIAN'',
      ''X-WR-CALNAME:MyVMK Events'', ''BEGIN:VEVENT'', ''DTSTAMP:'' @ now, ''UID:'' @ make_uid title s e,
      ''SUMMARY:x'', ''BEGIN:VEVENT'', ''DTSTART'' @ ics_dt s None, ''DTEND'' @ ics_dt e None,
      ''END:VEVENT'', ''END:VCALENDAR'']"
  proof -
    have ne: "title \<noteq> []" by (simp add: title_def)
    have "build_ics utcnow [\<lparr>ev_title = title, ev_start = s, ev_end = e, ev_source = None\<rparr>] None
            ''MyVMK Events'' =
          join [LF] [''BEGIN:VCALENDAR'', ''VERSION:2.0'', ''PRODID:-//MyVMK Scraper//EN'',
            ''CALSCALE:GREGORIAN'', ''X-WR-CALNAME:'' @ ics_escape ''MyVMK Events'', ''BEGIN:VEVENT'',
            ''DTSTAMP:'' @ now, ''UID:'' @ make_uid title s e, ''SUMMARY:'' @ ics_escape title,
            ''DTSTART'' @ ics_dt s None, ''DTEND'' @ ics_dt e None, ''END:VEVENT'', ''END:VCALENDAR'']
          @ [LF]"
      unfolding build_ics_lines now_def [symmetric]
      using ne by (simp add: header_lines_def vevent_def Let_def truthy_def)
    then have "text_lines (build_ics utcnow
        [\<lparr>ev_title = title, ev_start = s, ev_end = e, ev_source = None\<rparr>] None ''MyVMK Events'') =
      concat (map (\<lambda>l. text_lines (l @ [LF]))
        [''BEGIN:VCALENDAR'', ''VERSION:2.0'', ''PRODID:-//MyVMK Scraper//EN'',
         ''CALSCALE:GREGORIAN'', ''X-WR-CALNAME:'' @ ics_escape ''MyVMK Events'', ''BEGIN:VEVENT'',
         ''DTSTAMP:'' @ now, ''UID:'' @ make_uid title s e, ''SUMMARY:'' @ ics_escape title,
         ''DTSTART'' @ ics_dt s None, ''DTEND'' @ ics_dt e None, ''END:VEVENT'', ''END:VCALENDAR''])"
      by (simp only: text_lines_join [OF list.discI])
    also have "\<dots> =
      [''BEGIN:VCALENDAR'', ''VERSION:2.0'', ''PRODID:-//MyVMK Scraper//EN'', ''CALSCALE:GREGORIAN'',
       ''X-WR-CALNAME:MyVMK Events'', ''BEGIN:VEVENT'', ''DTSTAMP:'' @ now, ''UID:'' @ make_uid title s e,
       ''SUMMARY:x'', ''BEGIN:VEVENT'', ''DTSTART'' @ ics_dt s None, ''DTEND'' @ ics_dt e None,
       ''END:VEVENT'', ''END:VCALENDAR'']"
      apply (simp only: list.map concat.simps stamp uid ds de summary fixed)
      apply simp
      done
    finally show ?thesis .
  qed
  have "\<not> blocks_closed [] (text_lines (build_ics utcnow
       [\<lparr>ev_title = title, ev_start = s, ev_end = e, ev_source = None\<rparr>] None ''MyVMK Events''))"
    unfolding lines by (simp add: starts_with_def)
  then show ?thesis by (simp add: utcnow_def s_def e_def title_def)
qed






























subsection \<open>The identifier\<close>




section \<open>Properties of the Event Extractor and the Header Resolver\<close>

lemma li_event_skip:
  "li_event url d li = Inr None \<longleftrightarrow> li_title li = [] \<and> li_time li = []"
  by (auto simp: li_event_def Let_def split: sum.splits)

lemma li_event_Some:
  assumes "li_event url d li = Inr (Some ev)"
  shows "ev_title ev = (if li_title li \<noteq> [] then li_title li else PLACEHOLDER)"
    and "ev_source ev = Some url"
    and "parse_time_range (li_time li) d = Inr (ev_start ev, ev_end ev)"
    and "\<not> (li_title li = [] \<and> li_time li = [])"
  using assms by (auto simp: li_event_def Let_def split: sum.splits if_splits)

lemma li_loop_events:
  "li_loop url d lis = Inr evs \<Longrightarrow> ev \<in> set evs \<Longrightarrow> \<exists>li \<in> set lis. li_event url d li = Inr (Some ev)"
proof (induction lis arbitrary: evs)
  case Nil
  then show ?case by simp
next
  case (Cons li lis)
  from Cons.prems(1) obtain r evs' where r: "li_event url d li = Inr r"
    and l: "li_loop url d lis = Inr evs'"
    and e: "evs = (case r of None \<Rightarrow> evs' | Some x \<Rightarrow> x # evs')"
    by (auto split: sum.splits)
  show ?case
  proof (cases "ev \<in> set evs'")
    case True
    from Cons.IH [OF l True] show ?thesis by auto
  next
    case False
    with e Cons.prems(2) have "r = Some ev" by (cases r) auto
    with r show ?thesis by simp
  qed
qed

lemma day_events_events:
  assumes "day_events url y m dv = Inr evs" "ev \<in> set evs"
  shows "\<exists>d li. li_event url d li = Inr (Some ev)"
proof -
  from assms obtain d lis where "li_loop url d lis = Inr evs"
    by (auto simp: day_events_def Let_def split: option.splits if_splits sum.splits py_error.splits)
  from li_loop_events [OF this assms(2)] show ?thesis by blast
qed

lemma day_loop_events:
  "day_loop url y m dvs = Inr evs \<Longrightarrow> ev \<in> set evs \<Longrightarrow> \<exists>d li. li_event url d li = Inr (Some ev)"
proof (induction dvs arbitrary: evs)
  case Nil
  then show ?case by simp
next
  case (Cons dv dvs)
  from Cons.prems(1) obtain e1 e2 where a: "day_events url y m dv = Inr e1"
    and b: "day_loop url y m dvs = Inr e2" and c: "evs = e1 @ e2"
    by (auto split: sum.splits)
  from Cons.prems(2) c consider "ev \<in> set e1" | "ev \<in> set e2" by auto
  then show ?case
  proof cases
    case 1
    from day_events_events [OF a 1] show ?thesis .
  next
    case 2
    from Cons.IH [OF b 2] show ?thesis .
  qed
qed

lemma scrape_events_events:
  assumes "scrape_events soup today url fy fm = Inr evs" "ev \<in> set evs"
  shows "\<exists>d li. li_event url d li = Inr (Some ev)"
proof -
  from assms(1) obtain y m dvs where "day_loop url y m dvs = Inr evs"
    by (auto simp: scrape_events_def split: prod.splits)
  from day_loop_events [OF this assms(2)] show ?thesis .
qed

text \<open>A page with the header \<open>October 2025\<close> and one event on day 15.\<close>

lemma sample_page_events:
  "scrape_events
     (Element ''[document]'' None
        [Element ''div'' (Some ''header'') [Text ''October 2025''],
         Element ''div'' (Some ''day'')
           [Element ''p'' (Some ''number'') [Text ''15''],
            Element ''li'' (Some ''event-li'')
              [Element ''div'' (Some ''event day-targetable'')
                 [Element ''p'' (Some ''event-title'') [Text ''Party''],
                  Element ''p'' (Some ''event-time'') [Text ''6:00 PM - 7:00 PM'']]]]])
     \<lparr>year = 2026, month = 11, day = 3\<rparr> ''https://download.myvmk.com/calendar.html'' None None =
   Inr [\<lparr>ev_title = ''Party'',
          ev_start = \<lparr>year = 2025, month = 10, day = 15, hour = 18, minute = 0, second = 0\<rparr>,
          ev_end = \<lparr>year = 2025, month = 10, day = 15, hour = 19, minute = 0, second = 0\<rparr>,
          ev_source = Some ''https://download.myvmk.com/calendar.html''\<rparr>]"
  by code_simp

lemma scraped_title_not_empty:
  "li_event url d li = Inr (Some ev) \<Longrightarrow> ev_title ev \<noteq> []"
  by (auto simp: li_event_def Let_def PLACEHOLDER_def split: sum.splits if_splits)

lemma vevent_with_source:
  assumes "ev_title ev \<noteq> []" "ev_source ev = Some url" "url \<noteq> []"
  shows "vevent now tzid ev =
     [''BEGIN:VEVENT'', ''DTSTAMP:'' @ now,
      ''UID:'' @ make_uid (ev_title ev) (ev_start ev) (ev_end ev),
      ''SUMMARY:'' @ ics_escape (ev_title ev),
      ''DTSTART'' @ ics_dt (ev_start ev) tzid, ''DTEND'' @ ics_dt (ev_end ev) tzid,
      ''DESCRIPTION:'' @ ics_escape url, ''END:VEVENT'']"
  using assms by (simp add: vevent_def Let_def truthy_def)

subsection \<open>Skipped entries and the placeholder title\<close>

text \<open>
  Claim C9, amended. An entry is skipped if and only if both its title and its time text
  are empty. When the title alone is empty, the extraction stage itself puts the
  placeholder \<open>MyVMK Event\<close> as the title of the event it appends, so no extracted event
  has an empty title; the serializer has the same default for an empty title and writes
  the title of an extracted event as it is.
\<close>

theorem skip_and_placeholder:
  "(\<forall>url d li. li_event url d li = Inr None \<longleftrightarrow> li_title li = [] \<and> li_time li = [])
   \<and> (\<forall>url d li ev. li_event url d li = Inr (Some ev) \<longrightarrow>
         ev_title ev = (if li_title li = [] then ''MyVMK Event'' else li_title li) \<and>
         ev_title ev \<noteq> [])
   \<and> (\<forall>soup today url fy fm evs now tzid.
         scrape_events soup today url fy fm = Inr evs \<longrightarrow>
         (\<forall>ev \<in> set evs. ev_title ev \<noteq> [] \<and>
                          vevent now tzid ev ! 3 = ''SUMMARY:'' @ ics_escape (ev_title ev)))
   \<and> (\<forall>now tzid ev. ev_title ev = [] \<longrightarrow> vevent now tzid ev ! 3 = ''SUMMARY:MyVMK Event'')"
proof (intro conjI allI impI ballI)
  fix url d li
  show "li_event url d li = Inr None \<longleftrightarrow> li_title li = [] \<and> li_time li = []"
    by (rule li_event_skip)
next
  fix url d li ev
  assume a: "li_event url d li = Inr (Some ev)"
  from li_event_Some(1) [OF a]
  show "ev_title ev = (if li_title li = [] then ''MyVMK Event'' else li_title li)"
    by (simp add: PLACEHOLDER_def)
  from a show "ev_title ev \<noteq> []" by (rule scraped_title_not_empty)
next
  fix soup today url fy fm evs now tzid ev
  assume "scrape_events soup today url fy fm = Inr evs" "ev \<in> set evs"
  then obtain d li where "li_event url d li = Inr (Some ev)"
    using scrape_events_events by blast
  then show t: "ev_title ev \<noteq> []" by (rule scraped_title_not_empty)
  then show "vevent now tzid ev ! 3 = ''SUMMARY:'' @ ics_escape (ev_title ev)"
    by (simp add: vevent_def Let_def numeral_3_eq_3)
next
  fix now tzid and ev :: event
  assume "ev_title ev = []"
  then show "vevent now tzid ev ! 3 = ''SUMMARY:MyVMK Event''"
    by (simp add: vevent_def Let_def numeral_3_eq_3 PLACEHOLDER_def ics_escape_Cons ics_escape_Nil
                  BACKSLASH_def)
qed

lemma entry_without_title:
  "li_title (Element ''li'' (Some ''event-li'')
      [Element ''p'' (Some ''event-title'') [],
       Element ''p'' (Some ''event-time'') [Text ''6:00 PM - 7:00 PM'']]) = []"
  "li_time (Element ''li'' (Some ''event-li'')
      [Element ''p'' (Some ''event-title'') [],
       Element ''p'' (Some ''event-time'') [Text ''6:00 PM - 7:00 PM'']]) = ''6:00 PM - 7:00 PM''"
  "li_event ''https://download.myvmk.com/calendar.html'' \<lparr>year = 2025, month = 10, day = 15\<rparr>
     (Element ''li'' (Some ''event-li'')
        [Element ''p'' (Some ''event-title'') [],
         Element ''p'' (Some ''event-time'') [Text ''6:00 PM - 7:00 PM'']]) =
   Inr (Some \<lparr>ev_title = ''MyVMK Event'',
              ev_start = \<lparr>year = 2025, month = 10, day = 15, hour = 18, minute = 0, second = 0\<rparr>,
              ev_end = \<lparr>year = 2025, month = 10, day = 15, hour = 19, minute = 0, second = 0\<rparr>,
              ev_source = Some ''https://download.myvmk.com/calendar.html''\<rparr>)"
  by code_simp+

text \<open>
  An entry with a time and no title is not skipped and its event has the placeholder; the
  event of the sample page keeps its title in the summary line; an event with an empty
  title, which the extraction stage never builds, gets the placeholder from the serializer.
\<close>

theorem skip_and_placeholder_witness:
  "li_event ''https://download.myvmk.com/calendar.html'' \<lparr>year = 2025, month = 10, day = 15\<rparr>
     (Element ''li'' (Some ''event-li'')
        [Element ''p'' (Some ''event-title'') [],
         Element ''p'' (Some ''event-time'') [Text ''6:00 PM - 7:00 PM'']]) =
   Inr (Some \<lparr>ev_title = ''MyVMK Event'',
              ev_start = \<lparr>year = 2025, month = 10, day = 15, hour = 18, minute = 0, second = 0\<rparr>,
              ev_end = \<lparr>year = 2025, month = 10, day = 15, hour = 19, minute = 0, second = 0\<rparr>,
              ev_source = Some ''https://download.myvmk.com/calendar.html''\<rparr>) \<and>
   ev_title \<lparr>ev_title = ''MyVMK Event'',
              ev_start = \<lparr>year = 2025, month = 10, day = 15, hour = 18, minute = 0, second = 0\<rparr>,
              ev_end = \<lparr>year = 2025, month = 10, day = 15, hour = 19, minute = 0, second = 0\<rparr>,
              ev_source = Some ''https://download.myvmk.com/calendar.html''\<rparr> =
     (if li_title (Element ''li'' (Some ''event-li'')
            [Element ''p'' (Some ''event-title'') [],
             Element ''p'' (Some ''event-time'') [Text ''6:00 PM - 7:00 PM'']]) = []
      then ''MyVMK Event''
      else li_title (Element ''li'' (Some ''event-li'')
            [Element ''p'' (Some ''event-title'') [],
             Element ''p'' (Some ''event-time'') [Text ''6:00 PM - 7:00 PM'']])) \<and>
   vevent ''20261103T120000Z'' None
     \<lparr>ev_title = ''Party'',
       ev_start = \<lparr>year = 2025, month = 10, day = 15, hour = 18, minute = 0, second = 0\<rparr>,
       ev_end = \<lparr>year = 2025, month = 10, day = 15, hour = 19, minute = 0, second = 0\<rparr>,
       ev_source = Some ''https://download.myvmk.com/calendar.html''\<rparr> ! 3 = ''SUMMARY:Party'' \<and>
   vevent ''20261103T120000Z'' None
     \<lparr>ev_title = [],
       ev_start = \<lparr>year = 2025, month = 10, day = 15, hour = 18, minute = 0, second = 0\<rparr>,
       ev_end = \<lparr>year = 2025, month = 10, day = 15, hour = 19, minute = 0, second = 0\<rparr>,
       ev_source = None\<rparr> ! 3 = ''SUMMARY:MyVMK Event''"
proof -
  note t = skip_and_placeholder
  have a: "ev_title \<lparr>ev_title = ''MyVMK Event'',
              ev_start = \<lparr>year = 2025, month = 10, day = 15, hour = 18, minute = 0, second = 0\<rparr>,
              ev_end = \<lparr>year = 2025, month = 10, day = 15, hour = 19, minute = 0, second = 0\<rparr>,
              ev_source = Some ''https://download.myvmk.com/calendar.html''\<rparr> =
     (if li_title (Element ''li'' (Some ''event-li'')
            [Element ''p'' (Some ''event-title'') [],
             Element ''p'' (Some ''event-time'') [Text ''6:00 PM - 7:00 PM'']]) = []
      then ''MyVMK Event''
      else li_title (Element ''li'' (Some ''event-li'')
            [Element ''p'' (Some ''event-title'') [],
             Element ''p'' (Some ''event-time'') [Text ''6:00 PM - 7:00 PM'']]))"
    using t [THEN conjunct2, THEN conjunct1, rule_format, OF entry_without_title(3)] by blast
  have "vevent ''20261103T120000Z'' None
     \<lparr>ev_title = ''Party'',
       ev_start = \<lparr>year = 2025, month = 10, day = 15, hour = 18, minute = 0, second = 0\<rparr>,
       ev_end = \<lparr>year = 2025, month = 10, day = 15, hour = 19, minute = 0, second = 0\<rparr>,
       ev_source = Some ''https://download.myvmk.com/calendar.html''\<rparr> ! 3 =
     ''SUMMARY:'' @ ics_escape ''Party''"
    using t [THEN conjunct2, THEN conjunct2, THEN conjunct1, rule_format, OF sample_page_events,
        of _ "''20261103T120000Z''" None]
    by simp
  then have b: "vevent ''20261103T120000Z'' None
     \<lparr>ev_title = ''Party'',
       ev_start = \<lparr>year = 2025, month = 10, day = 15, hour = 18, minute = 0, second = 0\<rparr>,
       ev_end = \<lparr>year = 2025, month = 10, day = 15, hour = 19, minute = 0, second = 0\<rparr>,
       ev_source = Some ''https://download.myvmk.com/calendar.html''\<rparr> ! 3 = ''SUMMARY:Party''"
    by (simp add: ics_escape_Cons ics_escape_Nil BACKSLASH_def)
  have c: "vevent ''20261103T120000Z'' None
     \<lparr>ev_title = [],
       ev_start = \<lparr>year = 2025, month = 10, day = 15, hour = 18, minute = 0, second = 0\<rparr>,
       ev_end = \<lparr>year = 2025, month = 10, day = 15, hour = 19, minute = 0, second = 0\<rparr>,
       ev_source = None\<rparr> ! 3 = ''SUMMARY:MyVMK Event''"
    by (rule t [THEN conjunct2, THEN conjunct2, THEN conjunct2, rule_format]) simp
  from entry_without_title(3) a b c show ?thesis by (intro conjI)
qed

text \<open>
  Claim C9 as stated fails: for an entry with the time text \<open>6:00 PM - 7:00 PM\<close> and an
  empty title the extraction stage does not keep the empty title, the event it appends
  is titled \<open>MyVMK Event\<close>.
\<close>

theorem empty_title_counterexample:
  "li_title (Element ''li'' (Some ''event-li'')
      [Element ''p'' (Some ''event-title'') [],
       Element ''p'' (Some ''event-time'') [Text ''6:00 PM - 7:00 PM'']]) = [] \<and>
   (\<exists>ev. li_event ''https://download.myvmk.com/calendar.html'' \<lparr>year = 2025, month = 10, day = 15\<rparr>
           (Element ''li'' (Some ''event-li'')
              [Element ''p'' (Some ''event-title'') [],
               Element ''p'' (Some ''event-time'') [Text ''6:00 PM - 7:00 PM'']]) = Inr (Some ev) \<and>
         ev_title ev = ''MyVMK Event'' \<and> ev_title ev \<noteq> [])"
  using entry_without_title(1) entry_without_title(3) by simp

subsection \<open>The source URL and the description line\<close>

text \<open>
  Claim C10. Every event that \<open>scrape_events\<close> returns carries the URL it was given as
  its source, so for a URL that is not empty (the renderer is given a URL to load) every
  event block that \<open>build_ics\<close> writes for these events has the line \<open>DESCRIPTION:\<close> with
  the escaped URL, between the end time and the block close.
\<close>

theorem description_always_present:
  assumes "url \<noteq> []" and "scrape_events soup today url fy fm = Inr evs"
  shows "(\<forall>ev \<in> set evs.
            ev_source ev = Some url \<and>
            vevent now tzid ev =
              [''BEGIN:VEVENT'', ''DTSTAMP:'' @ now,
               ''UID:'' @ make_uid (ev_title ev) (ev_start ev) (ev_end ev),
               ''SUMMARY:'' @ ics_escape (ev_title ev),
               ''DTSTART'' @ ics_dt (ev_start ev) tzid, ''DTEND'' @ ics_dt (ev_end ev) tzid,
               ''DESCRIPTION:'' @ ics_escape url, ''END:VEVENT'']) \<and>
         build_ics utcnow evs tzid cal_name =
           join [LF] (header_lines cal_name @
                      concat (map (vevent (strftime utcnow @ ''Z'') tzid) evs) @
                      [''END:VCALENDAR'']) @ [LF]"
proof (intro conjI ballI)
  fix ev
  assume "ev \<in> set evs"
  with assms(2) obtain d li where e: "li_event url d li = Inr (Some ev)"
    using scrape_events_events by blast
  from li_event_Some(2) [OF e] show s: "ev_source ev = Some url" .
  from scraped_title_not_empty [OF e] s assms(1)
  show "vevent now tzid ev =
              [''BEGIN:VEVENT'', ''DTSTAMP:'' @ now,
               ''UID:'' @ make_uid (ev_title ev) (ev_start ev) (ev_end ev),
               ''SUMMARY:'' @ ics_escape (ev_title ev),
               ''DTSTART'' @ ics_dt (ev_start ev) tzid, ''DTEND'' @ ics_dt (ev_end ev) tzid,
               ''DESCRIPTION:'' @ ics_escape url, ''END:VEVENT'']"
    by (rule vevent_with_source)
next
  show "build_ics utcnow evs tzid cal_name =
           join [LF] (header_lines cal_name @
                      concat (map (vevent (strftime utcnow @ ''Z'') tzid) evs) @
                      [''END:VCALENDAR'']) @ [LF]"
    by (rule build_ics_lines)
qed

text \<open>A page with one event, scraped from the default URL.\<close>

theorem description_always_present_witness:
  "''https://download.myvmk.com/calendar.html'' \<noteq> [] \<and>
   scrape_events
     (Element ''[document]'' None
        [Element ''div'' (Some ''header'') [Text ''October 2025''],
         Element ''div'' (Some ''day'')
           [Element ''p'' (Some ''number'') [Text ''15''],
            Element ''li'' (Some ''event-li'')
              [Element ''div'' (Some ''event day-targetable'')
                 [Element ''p'' (Some ''event-title'') [Text ''Party''],
                  Element ''p'' (Some ''event-time'') [Text ''6:00 PM - 7:00 PM'']]]]])
     \<lparr>year = 2026, month = 11, day = 3\<rparr> ''https://download.myvmk.com/calendar.html'' None None =
   Inr [\<lparr>ev_title = ''Party'',
          ev_start = \<lparr>year = 2025, month = 10, day = 15, hour = 18, minute = 0, second = 0\<rparr>,
          ev_end = \<lparr>year = 2025, month = 10, day = 15, hour = 19, minute = 0, second = 0\<rparr>,
          ev_source = Some ''https://download.myvmk.com/calendar.html''\<rparr>] \<and>
   vevent ''20261103T120000Z'' None
     \<lparr>ev_title = ''Party'',
       ev_start = \<lparr>year = 2025, month = 10, day = 15, hour = 18, minute = 0, second = 0\<rparr>,
       ev_end = \<lparr>year = 2025, month = 10, day = 15, hour = 19, minute = 0, second = 0\<rparr>,
       ev_source = Some ''https://download.myvmk.com/calendar.html''\<rparr> ! 6 =
     ''DESCRIPTION:https://download.myvmk.com/calendar.html''"
proof -
  have u: "''https://download.myvmk.com/calendar.html'' \<noteq> []" by simp
  have e: "ics_escape ''https://download.myvmk.com/calendar.html'' =
           ''https://download.myvmk.com/calendar.html''"
    by (simp add: ics_escape_Cons ics_escape_Nil BACKSLASH_def)
  note d = description_always_present [OF u sample_page_events, THEN conjunct1, rule_format,
      of _ "''20261103T120000Z''" None]
  have "vevent ''20261103T120000Z'' None
     \<lparr>ev_title = ''Party'',
       ev_start = \<lparr>year = 2025, month = 10, day = 15, hour = 18, minute = 0, second = 0\<rparr>,
       ev_end = \<lparr>year = 2025, month = 10, day = 15, hour = 19, minute = 0, second = 0\<rparr>,
       ev_source = Some ''https://download.myvmk.com/calendar.html''\<rparr> ! 6 =
     ''DESCRIPTION:'' @ ics_escape ''https://download.myvmk.com/calendar.html''"
    by (subst d [THEN conjunct2]) simp_all
  with u sample_page_events show ?thesis by (simp only: e) simp
qed

subsection \<open>The start is before the end\<close>

text \<open>
  Claim C4. For every text, matching or not, and every base date, a pair (start, end)
  that \<open>parse_time_range\<close> returns has its start strictly before its end, in the order
  the program itself compares datetimes by; so every event that \<open>scrape_events\<close> returns
  for serialization ends strictly after it starts.
\<close>

theorem start_before_end:
  "(\<forall>inp d s e. parse_time_range inp d = Inr (s, e) \<longrightarrow> datetime_lt s e)
   \<and> (\<forall>soup today url fy fm evs.
         scrape_events soup today url fy fm = Inr evs \<longrightarrow>
         (\<forall>ev \<in> set evs. datetime_lt (ev_start ev) (ev_end ev)))"
proof (intro conjI allI impI ballI)
  fix inp d s e
  assume "parse_time_range inp d = Inr (s, e)"
  then show "datetime_lt s e" by (rule parse_time_range_ordered)
next
  fix soup today url fy fm evs ev
  assume "scrape_events soup today url fy fm = Inr evs" "ev \<in> set evs"
  then obtain d li where "li_event url d li = Inr (Some ev)"
    using scrape_events_events by blast
  from li_event_Some(3) [OF this] show "datetime_lt (ev_start ev) (ev_end ev)"
    by (rule parse_time_range_ordered)
qed

text \<open>The order at a range that crosses midnight, and at the event of the sample page.\<close>

theorem start_before_end_witness:
  "parse_time_range ''11:30 PM - 12:30 AM'' \<lparr>year = 2025, month = 10, day = 15\<rparr> =
     Inr (\<lparr>year = 2025, month = 10, day = 15, hour = 23, minute = 30, second = 0\<rparr>,
          \<lparr>year = 2025, month = 10, day = 16, hour = 0, minute = 30, second = 0\<rparr>) \<and>
   datetime_lt \<lparr>year = 2025, month = 10, day = 15, hour = 23, minute = 30, second = 0\<rparr>
               \<lparr>year = 2025, month = 10, day = 16, hour = 0, minute = 30, second = 0\<rparr> \<and>
   datetime_lt \<lparr>year = 2025, month = 10, day = 15, hour = 18, minute = 0, second = 0\<rparr>
               \<lparr>year = 2025, month = 10, day = 15, hour = 19, minute = 0, second = 0\<rparr>"
proof -
  have p: "parse_time_range ''11:30 PM - 12:30 AM'' \<lparr>year = 2025, month = 10, day = 15\<rparr> =
     Inr (\<lparr>year = 2025, month = 10, day = 15, hour = 23, minute = 30, second = 0\<rparr>,
          \<lparr>year = 2025, month = 10, day = 16, hour = 0, minute = 30, second = 0\<rparr>)"
    using parse_time_range_match [OF match_rollover_text to_hm_examples(1) to_hm_examples(2)]
    by (simp add: combine_def next_day_def days_in_month_def)
  have q: "datetime_lt \<lparr>year = 2025, month = 10, day = 15, hour = 18, minute = 0, second = 0\<rparr>
               \<lparr>year = 2025, month = 10, day = 15, hour = 19, minute = 0, second = 0\<rparr>"
    using start_before_end [THEN conjunct2, rule_format, OF sample_page_events] by simp
  from start_before_end [THEN conjunct1, rule_format, OF p] p q show ?thesis by (intro conjI)
qed

subsection \<open>Day containers with the hidden marker\<close>

lemma class_day_value: "class_day_not_hidden (Some ''day'')"
  by (simp add: class_day_not_hidden_def split_def is_space_def one_of_def)

lemma day_value_selects:
  "''day'' \<in> set (split raw) \<Longrightarrow> attr_matches class_day_not_hidden (Some raw)"
  using class_day_value by (auto simp: attr_matches_def Let_def list_ex_iff)

lemma hidden_container_selected:
  "''day'' \<in> set (split raw) \<Longrightarrow>
   tag_matches [''div''] class_day_not_hidden (Element ''div'' (Some raw) kids)"
  by (simp add: tag_matches_def day_value_selects)

text \<open>
  Claim C8 does not hold of the code. The function that selects the day containers is
  called on each value of the class list by itself before it is called on the whole
  list, and the value \<open>day\<close> by itself passes it: a container with the classes
  \<open>day hidden\<close> is selected, and the event inside it is extracted.
\<close>

theorem hidden_day_is_scraped:
  "tag_matches [''div''] class_day_not_hidden
     (Element ''div'' (Some ''day hidden'')
        [Element ''p'' (Some ''number'') [Text ''31''],
         Element ''li'' (Some ''event-li'')
           [Element ''p'' (Some ''event-title'') [Text ''Secret''],
            Element ''p'' (Some ''event-time'') [Text ''6:00 PM - 7:00 PM'']]]) \<and>
   scrape_events
     (Element ''[document]'' None
        [Element ''div'' (Some ''header'') [Text ''October 2025''],
         Element ''div'' (Some ''day hidden'')
           [Element ''p'' (Some ''number'') [Text ''31''],
            Element ''li'' (Some ''event-li'')
              [Element ''p'' (Some ''event-title'') [Text ''Secret''],
               Element ''p'' (Some ''event-time'') [Text ''6:00 PM - 7:00 PM'']]]])
     \<lparr>year = 2026, month = 11, day = 3\<rparr> ''https://download.myvmk.com/calendar.html'' None None =
   Inr [\<lparr>ev_title = ''Secret'',
          ev_start = \<lparr>year = 2025, month = 10, day = 31, hour = 18, minute = 0, second = 0\<rparr>,
          ev_end = \<lparr>year = 2025, month = 10, day = 31, hour = 19, minute = 0, second = 0\<rparr>,
          ev_source = Some ''https://download.myvmk.com/calendar.html''\<rparr>]"
  by code_simp

subsection \<open>The month and year of a run\<close>

lemma month_context_parsed:
  assumes "parse_header_month_year soup = (Some y, Some m)" "y \<noteq> 0" "m \<noteq> 0"
  shows "month_context soup today fy fm =
           (if truthy_int fy then the fy else y, if truthy_int fm then the fm else m)"
  using assms by (auto simp: month_context_def Let_def truthy_int_def split: option.splits)

lemma month_context_no_header:
  assumes "parse_header_month_year soup = (None, None)"
  shows "month_context soup today fy fm =
           (if truthy_int fy \<and> truthy_int fm then (the fy, the fm) else (year today, month today))"
  using assms by (auto simp: month_context_def Let_def truthy_int_def split: option.splits)

text \<open>
  Claim C1 does not hold of the code. On a page whose header gives no month and year,
  with the year 2030 forced and no month forced, the run of 2026-11-03 takes both the
  month and the year from the current date: the forced year is dropped, and the event
  of day 5 is dated 2026-11-05.
\<close>

theorem forced_year_is_dropped:
  "parse_header_month_year
     (Element ''[document]'' None
        [Element ''div'' (Some ''header'') [Text ''Events''],
         Element ''div'' (Some ''day'')
           [Element ''p'' (Some ''number'') [Text ''5''],
            Element ''li'' (Some ''event-li'')
              [Element ''p'' (Some ''event-title'') [Text ''Party''],
               Element ''p'' (Some ''event-time'') [Text ''6:00 PM - 7:00 PM'']]]]) = (None, None) \<and>
   month_context
     (Element ''[document]'' None
        [Element ''div'' (Some ''header'') [Text ''Events''],
         Element ''div'' (Some ''day'')
           [Element ''p'' (Some ''number'') [Text ''5''],
            Element ''li'' (Some ''event-li'')
              [Element ''p'' (Some ''event-title'') [Text ''Party''],
               Element ''p'' (Some ''event-time'') [Text ''6:00 PM - 7:00 PM'']]]])
     \<lparr>year = 2026, month = 11, day = 3\<rparr> (Some 2030) None = (2026, 11) \<and>
   scrape_events
     (Element ''[document]'' None
        [Element ''div'' (Some ''header'') [Text ''Events''],
         Element ''div'' (Some ''day'')
           [Element ''p'' (Some ''number'') [Text ''5''],
            Element ''li'' (Some ''event-li'')
              [Element ''p'' (Some ''event-title'') [Text ''Party''],
               Element ''p'' (Some ''event-time'') [Text ''6:00 PM - 7:00 PM'']]]])
     \<lparr>year = 2026, month = 11, day = 3\<rparr> ''https://download.myvmk.com/calendar.html''
     (Some 2030) None =
   Inr [\<lparr>ev_title = ''Party'',
          ev_start = \<lparr>year = 2026, month = 11, day = 5, hour = 18, minute = 0, second = 0\<rparr>,
          ev_end = \<lparr>year = 2026, month = 11, day = 5, hour = 19, minute = 0, second = 0\<rparr>,
          ev_source = Some ''https://download.myvmk.com/calendar.html''\<rparr>]"
  by code_simp

end

